theory Spec2Isabelle
  imports Main
begin

section \<open>The objects the code reads: AST nodes, paths and scopes\<close>

text \<open>
  The two modules (collections/Identifier.js and collections/VariableDeclarator.js) work on
  JavaScript objects that have identity: AST nodes, the paths that point at them and the
  scopes attached to the paths. Objects are numbered and live in a store; a reference is the
  number, and \<open>===\<close> on two objects is equality of numbers. An absent, \<open>null\<close> or
  \<open>undefined\<close> field is \<open>None\<close>.
\<close>

type_synonym nid = nat
type_synonym pid = nat
type_synonym sid = nat

text \<open>The value of a \<open>Literal\<close> node.\<close>

datatype litval = LString string | LNumber int | LBoolean bool | LNull

text \<open>
  An AST node, with the fields the two modules read: \<open>type\<close>, \<open>name\<close>, \<open>computed\<close>
  (falsy when absent), \<open>property\<close>, \<open>key\<close>, \<open>id\<close>, \<open>init\<close>, \<open>callee\<close>,
  \<open>arguments\<close> and \<open>value\<close>. The code is duck-typed: it reads a field of any node,
  whatever its type, so every node carries every field.
\<close>

record node =
  n_type :: string
  n_name :: "string option"
  n_computed :: bool
  n_property :: "nid option"
  n_key :: "nid option"
  n_id :: "nid option"
  n_init :: "nid option"
  n_callee :: "nid option"
  n_arguments :: "nid list"
  n_value :: "litval option"

text \<open>
  A path: \<open>path.value\<close> (when it is a node object), \<open>path.node\<close>, \<open>path.parent\<close>
  (\<open>null\<close> at the root) and \<open>path.scope\<close> (\<open>null\<close> when no scope encloses the path).
\<close>

record path =
  p_value :: "nid option"
  p_node :: nid
  p_parent :: "pid option"
  p_scope :: "sid option"

text \<open>
  A scope: \<open>scope.path\<close> (the path of the function or program that owns it),
  \<open>scope.parent\<close> (\<open>null\<close> at the root) and the names it binds, which
  \<open>scope.declares(name)\<close> looks up.
\<close>

record scope =
  s_path :: pid
  s_parent :: "sid option"
  s_bindings :: "string list"

text \<open>
  The store. \<open>subtree st p\<close> lists the paths strictly below \<open>p\<close> in the order the
  traversal visits them; \<open>isSupertypeOf st T U\<close> is the type table of the AST library
  (\<open>T\<close> is \<open>U\<close> or one of its supertypes), a parameter of everything that follows.
\<close>

record store =
  nodes :: "nid \<Rightarrow> node"
  paths :: "pid \<Rightarrow> path"
  scopes :: "sid \<Rightarrow> scope"
  subtree :: "pid \<Rightarrow> pid list"
  isSupertypeOf :: "string \<Rightarrow> string \<Rightarrow> bool"

section \<open>Results: a value, a thrown error, or no result\<close>

text \<open>
  The only error the two modules can raise is the \<open>TypeError\<close> of reading a property of
  \<open>null\<close> or \<open>undefined\<close>. A computation that contains the scope loop returns
  \<open>Some (Inr v)\<close>, throws (\<open>Some (Inl e)\<close>) or does not return (\<open>None\<close>).
\<close>

datatype error = TypeError

type_synonym 'a res = "(error + 'a) option"

abbreviation Ret :: "'a \<Rightarrow> 'a res" where
  "Ret v \<equiv> Some (Inr v)"

abbreviation Throw :: "error \<Rightarrow> 'a res" where
  "Throw e \<equiv> Some (Inl e)"

definition bindR :: "'a res \<Rightarrow> ('a \<Rightarrow> 'b res) \<Rightarrow> 'b res" where
  "bindR m f = (case m of None \<Rightarrow> None | Some (Inl e) \<Rightarrow> Throw e | Some (Inr v) \<Rightarrow> f v)"

section \<open>The AST library, as the code uses it\<close>

text \<open>
  \<open>types.T.check(value)\<close>: the value is a node whose type is \<open>T\<close> or a subtype of it;
  \<open>null\<close> and \<open>undefined\<close> check as nothing.
\<close>

definition check :: "store \<Rightarrow> string \<Rightarrow> node \<Rightarrow> bool" where
  "check st T nd = isSupertypeOf st T (n_type nd)"

definition check_at :: "store \<Rightarrow> string \<Rightarrow> nid option \<Rightarrow> bool" where
  "check_at st T x = (case x of None \<Rightarrow> False | Some n \<Rightarrow> check st T (nodes st n))"

text \<open>
  \<open>scope.declares(name)\<close>: the name is an own key of the scope's bindings. A property
  key that is \<open>undefined\<close> is the string \<open>undefined\<close>.
\<close>

definition declares :: "store \<Rightarrow> sid \<Rightarrow> string option \<Rightarrow> bool" where
  "declares st s name =
     ((case name of None \<Rightarrow> ''undefined'' | Some x \<Rightarrow> x) \<in> set (s_bindings (scopes st s)))"

text \<open>The builders \<open>b.identifier(name)\<close> and \<open>b.literal(value)\<close>: a fresh leaf node.\<close>

definition b_identifier :: "string \<Rightarrow> node" where
  "b_identifier x =
     \<lparr>n_type = ''Identifier'', n_name = Some x, n_computed = False, n_property = None,
      n_key = None, n_id = None, n_init = None, n_callee = None, n_arguments = [],
      n_value = None\<rparr>"

definition b_literal :: "string \<Rightarrow> node" where
  "b_literal v =
     \<lparr>n_type = ''Literal'', n_name = None, n_computed = False, n_property = None,
      n_key = None, n_id = None, n_init = None, n_callee = None, n_arguments = [],
      n_value = Some (LString v)\<rparr>"

text \<open>
  Modelled from the spec: \<open>astNodesAreEquivalent\<close>, the structural-equality check of the
  AST library (section 6). The code only ever passes a freshly built leaf as the second
  argument, so the check compares the node the first argument refers to with that leaf,
  field by field; \<open>undefined\<close> is equivalent to no node.
\<close>

definition astNodesAreEquivalent :: "store \<Rightarrow> nid option \<Rightarrow> node \<Rightarrow> bool" where
  "astNodesAreEquivalent st x leaf = (case x of None \<Rightarrow> False | Some n \<Rightarrow> nodes st n = leaf)"

section \<open>collections/Identifier.js\<close>

text \<open>
  \<open>isVariable\<close> (lines 24-65). \<open>path.parent.node\<close> throws when the path has no parent;
  then four tests in the order of the source, each with its early \<open>return false\<close>.
\<close>

definition isVariable :: "store \<Rightarrow> pid \<Rightarrow> error + bool" where
  "isVariable st p =
     (case p_parent (paths st p) of
        None \<Rightarrow> Inl TypeError
      | Some q \<Rightarrow>
          (let parent = nodes st (p_node (paths st q));
               nd = p_node (paths st p)
           in if check st ''MemberExpression'' parent \<and> n_property parent = Some nd
                   \<and> \<not> n_computed parent then Inr False
              else if check st ''Property'' parent \<and> n_key parent = Some nd
                   \<and> \<not> n_computed parent then Inr False
              else if check st ''MethodDefinition'' parent \<and> n_key parent = Some nd
                   \<and> \<not> n_computed parent then Inr False
              else if check st ''ObjectTypeProperty'' parent \<and> n_key parent = Some nd
                   then Inr False
              else Inr True))"

text \<open>\<open>isDeclaratorID\<close> (lines 67-89).\<close>

definition isDeclaratorID :: "store \<Rightarrow> pid \<Rightarrow> error + bool" where
  "isDeclaratorID st p =
     (case p_parent (paths st p) of
        None \<Rightarrow> Inl TypeError
      | Some q \<Rightarrow>
          (let parent = nodes st (p_node (paths st q))
           in if n_id parent = Some (p_node (paths st p)) \<and>
                 (check st ''VariableDeclarator'' parent \<or>
                  check st ''FunctionDeclaration'' parent \<or>
                  check st ''ClassDeclaration'' parent \<or>
                  check st ''TypeAlias'' parent)
              then Inr True else Inr False))"

text \<open>
  The scope loop of \<open>isDeclaredBy\<close>, written twice in the source (lines 105-108 and
  115-118): \<open>while (!scope.declares(name)) scope = scope.parent\<close>. Reading
  \<open>declares\<close> of \<open>null\<close> throws. Nothing in the loop bounds the number of steps, so
  its model is a partial function: \<open>None\<close> is the loop that never ends.
\<close>

partial_function (option) declaringScope ::
  "store \<Rightarrow> string option \<Rightarrow> sid option \<Rightarrow> (error + sid) option" where
  "declaringScope st name cur =
     (case cur of
        None \<Rightarrow> Some (Inl TypeError)
      | Some s \<Rightarrow>
          (if declares st s name then Some (Inr s)
           else declaringScope st name (s_parent (scopes st s))))"

declare declaringScope.simps [code]

text \<open>
  \<open>isDeclaredBy\<close> (lines 98-126). The call reads the declarator's name and walks from
  the declarator's scope; it returns a closure, which is run later on a candidate path and
  reads the store of that moment.
\<close>

definition isDeclaredBy :: "store \<Rightarrow> pid \<Rightarrow> (store \<Rightarrow> pid \<Rightarrow> bool res) res" where
  "isDeclaredBy st varDeclaratorPath =
     (case n_id (nodes st (p_node (paths st varDeclaratorPath))) of
        None \<Rightarrow> Throw TypeError
      | Some i \<Rightarrow>
          (let name = n_name (nodes st i) in
           bindR (declaringScope st name (p_scope (paths st varDeclaratorPath)))
             (\<lambda>varDeclaratorScope.
                Ret (\<lambda>st' identPath.
                  (case isVariable st' identPath of
                     Inl e \<Rightarrow> Throw e
                   | Inr False \<Rightarrow> Ret False
                   | Inr True \<Rightarrow>
                       bindR (declaringScope st' name (p_scope (paths st' identPath)))
                         (\<lambda>s. Ret (s_path (scopes st' s) =
                                      s_path (scopes st' varDeclaratorScope))))))))"

text \<open>The \<open>k\<close>-th scope of the chain that starts at \<open>cur\<close>, following \<open>parent\<close>.\<close>

fun ancestor :: "store \<Rightarrow> nat \<Rightarrow> sid option \<Rightarrow> sid option" where
  "ancestor st 0 cur = cur"
| "ancestor st (Suc k) cur =
     (case cur of None \<Rightarrow> None | Some s \<Rightarrow> ancestor st k (s_parent (scopes st s)))"

section \<open>The collection facility\<close>

text \<open>
  A collection is the list of its paths (\<open>__paths\<close>).

  Modelled from the spec: \<open>Collection.find(type, {name: ...})\<close> of Collection.js, the
  generic query facility of section 6 ("find nodes of a given type, optionally filtered by
  a shape predicate", "restrict a search to the subtree of a given Path"). It visits the
  paths below each root in order and keeps those whose value checks as the type and whose
  \<open>name\<close> is the wanted one. A wanted name that is \<open>undefined\<close> matches no node.
\<close>

definition matchName :: "node \<Rightarrow> string option \<Rightarrow> bool" where
  "matchName nd needle = (case needle of None \<Rightarrow> False | Some x \<Rightarrow> n_name nd = Some x)"

definition Collection_find :: "store \<Rightarrow> pid list \<Rightarrow> string \<Rightarrow> string option \<Rightarrow> pid list" where
  "Collection_find st roots T needle =
     concat (map (\<lambda>r. filter (\<lambda>p. case p_value (paths st p) of
                                     None \<Rightarrow> False
                                   | Some n \<Rightarrow> check st T (nodes st n) \<and>
                                              matchName (nodes st n) needle)
                          (subtree st r)) roots)"

text \<open>
  Modelled from the spec: \<open>Collection.filter(callback)\<close> of Collection.js ("filter a
  result set by predicate"). The callback runs on the paths from left to right; the first
  one that throws, or does not return, ends the filter.
\<close>

fun Collection_filter :: "('a \<Rightarrow> bool res) \<Rightarrow> 'a list \<Rightarrow> 'a list res" where
  "Collection_filter f [] = Ret []"
| "Collection_filter f (x # xs) =
     bindR (f x) (\<lambda>b. bindR (Collection_filter f xs) (\<lambda>ys. Ret (if b then x # ys else ys)))"

text \<open>
  Modelled from the spec: \<open>Collection.forEach(callback)\<close> of Collection.js ("iterate a
  result set"). Each call sees the store the calls before it left.
\<close>

fun Collection_forEach :: "(store \<Rightarrow> pid \<Rightarrow> store res) \<Rightarrow> store \<Rightarrow> pid list \<Rightarrow> store res" where
  "Collection_forEach f st [] = Ret st"
| "Collection_forEach f st (p # ps) = bindR (f st p) (\<lambda>st'. Collection_forEach f st' ps)"

text \<open>
  Modelled from the spec: \<open>path.prune()\<close> and \<open>Collection.remove()\<close> of
  collections/Node.js ("remove nodes pointed to by a Path"; section 4.5, step 3: "removing
  a declarator from a multi-declarator statement splices only that declarator, preserving
  the others and preserving the statement if any declarator remains; removing the last
  declarator removes the entire declaration statement"). \<open>detach\<close> takes a path, and
  everything below it, out of the subtree of every path above it. \<open>children\<close> are the
  paths below a path whose parent it is: of a \<open>VariableDeclaration\<close>, its declarators.
  \<open>prune\<close> detaches the path and then, when its parent is a \<open>VariableDeclaration\<close>
  left without children, the parent. \<open>remove\<close> prunes every path of the collection it is
  called on and, like \<open>forEach\<close>, returns that collection.
\<close>

definition detach :: "store \<Rightarrow> pid \<Rightarrow> store" where
  "detach st p =
     st\<lparr>subtree := (\<lambda>r. if p \<in> set (subtree st r)
                         then filter (\<lambda>q. q \<noteq> p \<and> q \<notin> set (subtree st p)) (subtree st r)
                         else subtree st r)\<rparr>"

definition children :: "store \<Rightarrow> pid \<Rightarrow> pid list" where
  "children st q = filter (\<lambda>r. p_parent (paths st r) = Some q) (subtree st q)"

definition prune :: "store \<Rightarrow> pid \<Rightarrow> store" where
  "prune st p =
     (let st1 = detach st p in
      case p_parent (paths st p) of
        None \<Rightarrow> st1
      | Some q \<Rightarrow>
          if check st1 ''VariableDeclaration'' (nodes st1 (p_node (paths st1 q))) \<and>
             children st1 q = []
          then detach st1 q else st1)"

definition Collection_remove :: "store \<Rightarrow> pid list \<Rightarrow> store \<times> pid list" where
  "Collection_remove st coll = (fold (\<lambda>p s. prune s p) coll st, coll)"

section \<open>collections/VariableDeclarator.js\<close>

text \<open>
  The argument of \<open>requiresModule\<close>: nothing (\<open>undefined\<close>), one string, or an array
  of strings. \<open>truthy\<close> is JavaScript's: \<open>undefined\<close> and the empty string are falsy,
  every array is truthy.
\<close>

datatype names_arg = NoNames | OneName string | NameList "string list"

fun truthy :: "names_arg \<Rightarrow> bool" where
  "truthy NoNames = False"
| "truthy (OneName s) = (s \<noteq> [])"
| "truthy (NameList ns) = True"

fun isArray :: "names_arg \<Rightarrow> bool" where
  "isArray (NameList ns) = True"
| "isArray other = False"

text \<open>
  \<open>requiresModule\<close> (lines 464-481). First \<open>if (names && !Array.isArray(names)) names =
  [names]\<close>; then the predicate on \<open>path.value\<close>. After the first line a truthy
  \<open>names\<close> is an array, so \<open>names.some\<close> is only ever called on an array.
\<close>

fun wrap_names :: "names_arg \<Rightarrow> names_arg" where
  "wrap_names (OneName s) = (if truthy (OneName s) \<and> \<not> isArray (OneName s) then NameList [s] else OneName s)"
| "wrap_names other = other"

fun names_some :: "(string \<Rightarrow> bool) \<Rightarrow> names_arg \<Rightarrow> bool" where
  "names_some f (NameList ns) = list_ex f ns"
| "names_some f other = False"

definition requiresModule :: "store \<Rightarrow> names_arg \<Rightarrow> pid \<Rightarrow> bool" where
  "requiresModule st names0 p =
     (let names = wrap_names names0;
          requireIdentifier = b_identifier ''require'';
          nd = p_value (paths st p)
      in case nd of
           None \<Rightarrow> False
         | Some d \<Rightarrow>
             (if \<not> check st ''VariableDeclarator'' (nodes st d) \<or>
                 \<not> check_at st ''CallExpression'' (n_init (nodes st d)) then False
              else case n_init (nodes st d) of
                     None \<Rightarrow> False
                   | Some c \<Rightarrow>
                       (if \<not> astNodesAreEquivalent st (n_callee (nodes st c)) requireIdentifier
                        then False
                        else \<not> truthy names \<or>
                             names_some
                               (\<lambda>n. astNodesAreEquivalent st
                                       (case n_arguments (nodes st c) of
                                          [] \<Rightarrow> None | a # rest \<Rightarrow> Some a)
                                       (b_literal n))
                               names)))"

text \<open>
  \<open>path.get('name').replace(newName)\<close>: the \<open>name\<close> field of the node at the path
  becomes the new name.
\<close>

definition replace_name :: "string \<Rightarrow> store \<Rightarrow> pid \<Rightarrow> store" where
  "replace_name newName st p =
     (case p_value (paths st p) of
        None \<Rightarrow> st
      | Some n \<Rightarrow> st\<lparr>nodes := (nodes st)(n := (nodes st n)\<lparr>n_name := Some newName\<rparr>)\<rparr>)"

text \<open>
  \<open>renameTo\<close> (lines 494-503). \<open>renameTo_varPath\<close> is the callback of the outer
  \<open>forEach\<close>: it reads the old name, searches below \<open>varPath.scope.path\<close>, builds the
  predicate \<open>isDeclaredBy(varPath)\<close>, filters, and only then renames what is left.
\<close>

definition renameTo_varPath :: "string \<Rightarrow> store \<Rightarrow> pid \<Rightarrow> store res" where
  "renameTo_varPath newName st varPath =
     (case n_id (nodes st (p_node (paths st varPath))) of
        None \<Rightarrow> Throw TypeError
      | Some i \<Rightarrow>
          (let oldName = n_name (nodes st i) in
           case p_scope (paths st varPath) of
             None \<Rightarrow> Throw TypeError
           | Some s \<Rightarrow>
               (let found = Collection_find st [s_path (scopes st s)] ''Identifier'' oldName in
                bindR (isDeclaredBy st varPath) (\<lambda>pred.
                bindR (Collection_filter (pred st) found) (\<lambda>matches.
                Ret (fold (\<lambda>p s. replace_name newName s p) matches st))))))"

definition renameTo :: "string \<Rightarrow> store \<Rightarrow> pid list \<Rightarrow> (store \<times> pid list) res" where
  "renameTo newName st coll =
     bindR (Collection_forEach (renameTo_varPath newName) st coll) (\<lambda>st'. Ret (st', coll))"

text \<open>
  \<open>removeUnreferenced\<close> (lines 511-529). \<open>removeUnreferenced_varPath\<close> is the
  callback of \<open>filter\<close>; \<open>!name\<close> holds for \<open>undefined\<close> and for the empty string.
  The filtered collection is then removed, and \<open>remove\<close>'s result is returned.
\<close>

definition removeUnreferenced_varPath :: "store \<Rightarrow> pid \<Rightarrow> bool res" where
  "removeUnreferenced_varPath st varPath =
     (case n_id (nodes st (p_node (paths st varPath))) of
        None \<Rightarrow> Throw TypeError
      | Some i \<Rightarrow>
          (let name = n_name (nodes st i) in
           if name = None \<or> name = Some [] then Ret False
           else case p_scope (paths st varPath) of
                  None \<Rightarrow> Throw TypeError
                | Some s \<Rightarrow>
                    (let found = Collection_find st [s_path (scopes st s)] ''Identifier'' name in
                     bindR (Collection_filter
                              (\<lambda>p. case isDeclaratorID st p of
                                      Inl e \<Rightarrow> Throw e | Inr b \<Rightarrow> Ret (\<not> b)) found)
                       (\<lambda>uses.
                     bindR (isDeclaredBy st varPath) (\<lambda>pred.
                     bindR (Collection_filter (pred st) uses) (\<lambda>refs.
                     Ret (0 = length refs)))))))"

definition removeUnreferenced :: "store \<Rightarrow> pid list \<Rightarrow> (store \<times> pid list) res" where
  "removeUnreferenced st coll =
     bindR (Collection_filter (removeUnreferenced_varPath st) coll)
       (\<lambda>unreferenced. Ret (Collection_remove st unreferenced))"

section \<open>Seven programs as stores\<close>

text \<open>
  Concrete stores for the programs the theorems are run on. Node \<open>i\<close> has path \<open>i\<close>;
  the type table is that of a program without subtypes; parsed identifiers are the nodes the
  builder makes. Numbers that name no object of the program get an empty node, a path
  without parent or scope, and a scope of their own.
\<close>

definition mk_node :: "string \<Rightarrow> node" where
  "mk_node T =
     \<lparr>n_type = T, n_name = None, n_computed = False, n_property = None, n_key = None,
      n_id = None, n_init = None, n_callee = None, n_arguments = [], n_value = None\<rparr>"

definition mk_path :: "nid \<Rightarrow> pid option \<Rightarrow> sid option \<Rightarrow> path" where
  "mk_path n par sc = \<lparr>p_value = Some n, p_node = n, p_parent = par, p_scope = sc\<rparr>"

definition table :: "(nat \<times> 'a) list \<Rightarrow> (nat \<Rightarrow> 'a) \<Rightarrow> nat \<Rightarrow> 'a" where
  "table xs dflt k = (case map_of xs k of None \<Rightarrow> dflt k | Some v \<Rightarrow> v)"

definition no_path :: "pid \<Rightarrow> path" where
  "no_path p = \<lparr>p_value = None, p_node = p, p_parent = None, p_scope = None\<rparr>"

definition no_scope :: "sid \<Rightarrow> scope" where
  "no_scope s = \<lparr>s_path = 100 + s, s_parent = None, s_bindings = []\<rparr>"

text \<open>
  The first program (scenario A of the spec):
  \<^verbatim>\<open>var foo = 42; var bar = require("module"); bar.foo(); foo[bar];\<close>
  0 Program, 1 VariableDeclaration, 2 VariableDeclarator, 3 \<open>foo\<close>, 4 \<open>42\<close>,
  5 VariableDeclaration, 6 VariableDeclarator, 7 \<open>bar\<close>, 8 the call of \<open>require\<close>,
  9 \<open>require\<close>, 10 \<open>"module"\<close>, 11 ExpressionStatement, 12 the call \<open>bar.foo()\<close>,
  13 \<open>bar.foo\<close>, 14 \<open>bar\<close>, 15 \<open>foo\<close>, 16 ExpressionStatement,
  17 \<open>foo[bar]\<close>, 18 \<open>foo\<close>, 19 \<open>bar\<close>. One scope, the program's.
\<close>

definition require_program :: store where
  "require_program =
     \<lparr>nodes = table
       [(0, mk_node ''Program''),
        (1, mk_node ''VariableDeclaration''),
        (2, (mk_node ''VariableDeclarator'')\<lparr>n_id := Some 3, n_init := Some 4\<rparr>),
        (3, b_identifier ''foo''),
        (4, (mk_node ''Literal'')\<lparr>n_value := Some (LNumber 42)\<rparr>),
        (5, mk_node ''VariableDeclaration''),
        (6, (mk_node ''VariableDeclarator'')\<lparr>n_id := Some 7, n_init := Some 8\<rparr>),
        (7, b_identifier ''bar''),
        (8, (mk_node ''CallExpression'')\<lparr>n_callee := Some 9, n_arguments := [10]\<rparr>),
        (9, b_identifier ''require''),
        (10, b_literal ''module''),
        (11, mk_node ''ExpressionStatement''),
        (12, (mk_node ''CallExpression'')\<lparr>n_callee := Some 13\<rparr>),
        (13, (mk_node ''MemberExpression'')\<lparr>n_property := Some 15\<rparr>),
        (14, b_identifier ''bar''),
        (15, b_identifier ''foo''),
        (16, mk_node ''ExpressionStatement''),
        (17, (mk_node ''MemberExpression'')\<lparr>n_property := Some 19, n_computed := True\<rparr>),
        (18, b_identifier ''foo''),
        (19, b_identifier ''bar'')] (\<lambda>n. mk_node []),
      paths = table
       [(0, mk_path 0 None (Some 0)),
        (1, mk_path 1 (Some 0) (Some 0)),
        (2, mk_path 2 (Some 1) (Some 0)),
        (3, mk_path 3 (Some 2) (Some 0)),
        (4, mk_path 4 (Some 2) (Some 0)),
        (5, mk_path 5 (Some 0) (Some 0)),
        (6, mk_path 6 (Some 5) (Some 0)),
        (7, mk_path 7 (Some 6) (Some 0)),
        (8, mk_path 8 (Some 6) (Some 0)),
        (9, mk_path 9 (Some 8) (Some 0)),
        (10, mk_path 10 (Some 8) (Some 0)),
        (11, mk_path 11 (Some 0) (Some 0)),
        (12, mk_path 12 (Some 11) (Some 0)),
        (13, mk_path 13 (Some 12) (Some 0)),
        (14, mk_path 14 (Some 13) (Some 0)),
        (15, mk_path 15 (Some 13) (Some 0)),
        (16, mk_path 16 (Some 0) (Some 0)),
        (17, mk_path 17 (Some 16) (Some 0)),
        (18, mk_path 18 (Some 17) (Some 0)),
        (19, mk_path 19 (Some 17) (Some 0))] no_path,
      scopes = table
       [(0, \<lparr>s_path = 0, s_parent = None, s_bindings = [''foo'', ''bar'']\<rparr>)] no_scope,
      subtree = table
       [(0, [1, 2, 3, 4, 5, 6, 7, 8, 9, 10, 11, 12, 13, 14, 15, 16, 17, 18, 19]),
        (1, [2, 3, 4]),
        (2, [3, 4]),
        (5, [6, 7, 8, 9, 10]),
        (6, [7, 8, 9, 10]),
        (8, [9, 10]),
        (11, [12, 13, 14, 15]),
        (12, [13, 14, 15]),
        (13, [14, 15]),
        (16, [17, 18, 19]),
        (17, [18, 19])] (\<lambda>p. []),
      isSupertypeOf = (\<lambda>T U. T = U)\<rparr>"

text \<open>
  The second program (scenario B of the spec, and a destructuring declaration after it):
  \<^verbatim>\<open>var x = 3, y = 4; f(y); var [a] = o;\<close>
  0 Program, 1 VariableDeclaration, 2 the declarator of \<open>x\<close>, 3 \<open>x\<close>, 4 \<open>3\<close>,
  5 the declarator of \<open>y\<close>, 6 \<open>y\<close>, 7 \<open>4\<close>, 8 ExpressionStatement, 9 the call
  \<open>f(y)\<close>, 10 \<open>f\<close>, 11 \<open>y\<close>, 12 VariableDeclaration, 13 the declarator of
  \<open>[a]\<close>, 14 ArrayPattern, 15 \<open>a\<close>, 16 \<open>o\<close>. One scope, the program's.
\<close>

definition unused_program :: store where
  "unused_program =
     \<lparr>nodes = table
       [(0, mk_node ''Program''),
        (1, mk_node ''VariableDeclaration''),
        (2, (mk_node ''VariableDeclarator'')\<lparr>n_id := Some 3, n_init := Some 4\<rparr>),
        (3, b_identifier ''x''),
        (4, (mk_node ''Literal'')\<lparr>n_value := Some (LNumber 3)\<rparr>),
        (5, (mk_node ''VariableDeclarator'')\<lparr>n_id := Some 6, n_init := Some 7\<rparr>),
        (6, b_identifier ''y''),
        (7, (mk_node ''Literal'')\<lparr>n_value := Some (LNumber 4)\<rparr>),
        (8, mk_node ''ExpressionStatement''),
        (9, (mk_node ''CallExpression'')\<lparr>n_callee := Some 10, n_arguments := [11]\<rparr>),
        (10, b_identifier ''f''),
        (11, b_identifier ''y''),
        (12, mk_node ''VariableDeclaration''),
        (13, (mk_node ''VariableDeclarator'')\<lparr>n_id := Some 14, n_init := Some 16\<rparr>),
        (14, mk_node ''ArrayPattern''),
        (15, b_identifier ''a''),
        (16, b_identifier ''o'')] (\<lambda>n. mk_node []),
      paths = table
       [(0, mk_path 0 None (Some 0)),
        (1, mk_path 1 (Some 0) (Some 0)),
        (2, mk_path 2 (Some 1) (Some 0)),
        (3, mk_path 3 (Some 2) (Some 0)),
        (4, mk_path 4 (Some 2) (Some 0)),
        (5, mk_path 5 (Some 1) (Some 0)),
        (6, mk_path 6 (Some 5) (Some 0)),
        (7, mk_path 7 (Some 5) (Some 0)),
        (8, mk_path 8 (Some 0) (Some 0)),
        (9, mk_path 9 (Some 8) (Some 0)),
        (10, mk_path 10 (Some 9) (Some 0)),
        (11, mk_path 11 (Some 9) (Some 0)),
        (12, mk_path 12 (Some 0) (Some 0)),
        (13, mk_path 13 (Some 12) (Some 0)),
        (14, mk_path 14 (Some 13) (Some 0)),
        (15, mk_path 15 (Some 14) (Some 0)),
        (16, mk_path 16 (Some 13) (Some 0))] no_path,
      scopes = table
       [(0, \<lparr>s_path = 0, s_parent = None, s_bindings = [''x'', ''y'', ''a'']\<rparr>)] no_scope,
      subtree = table
       [(0, [1, 2, 3, 4, 5, 6, 7, 8, 9, 10, 11, 12, 13, 14, 15, 16]),
        (1, [2, 3, 4, 5, 6, 7]),
        (2, [3, 4]),
        (5, [6, 7]),
        (8, [9, 10, 11]),
        (9, [10, 11]),
        (12, [13, 14, 15, 16]),
        (13, [14, 15, 16]),
        (14, [15])] (\<lambda>p. []),
      isSupertypeOf = (\<lambda>T U. T = U)\<rparr>"

text \<open>
  The third program, a \<open>var\<close> inside a catch block:
  \<^verbatim>\<open>function f() { try {} catch (e) { var x = 1; } return x; }\<close>
  0 Program, 1 FunctionDeclaration, 2 \<open>f\<close>, 3 the body, 4 TryStatement, 5 the try block,
  6 CatchClause, 7 \<open>e\<close>, 8 the catch block, 9 VariableDeclaration, 10 the declarator of
  \<open>x\<close>, 11 \<open>x\<close>, 12 \<open>1\<close>, 13 ReturnStatement, 14 \<open>x\<close>. Three scopes: 0 the
  program's, 1 the function's, 2 the catch clause's, which binds only \<open>e\<close>: the
  \<open>var\<close> belongs to the function. This is the case the comment in \<open>isDeclaredBy\<close>
  speaks of: the scope of the declarator does not declare its name.
\<close>

definition catch_program :: store where
  "catch_program =
     \<lparr>nodes = table
       [(0, mk_node ''Program''),
        (1, (mk_node ''FunctionDeclaration'')\<lparr>n_id := Some 2\<rparr>),
        (2, b_identifier ''f''),
        (3, mk_node ''BlockStatement''),
        (4, mk_node ''TryStatement''),
        (5, mk_node ''BlockStatement''),
        (6, mk_node ''CatchClause''),
        (7, b_identifier ''e''),
        (8, mk_node ''BlockStatement''),
        (9, mk_node ''VariableDeclaration''),
        (10, (mk_node ''VariableDeclarator'')\<lparr>n_id := Some 11, n_init := Some 12\<rparr>),
        (11, b_identifier ''x''),
        (12, (mk_node ''Literal'')\<lparr>n_value := Some (LNumber 1)\<rparr>),
        (13, mk_node ''ReturnStatement''),
        (14, b_identifier ''x'')] (\<lambda>n. mk_node []),
      paths = table
       [(0, mk_path 0 None (Some 0)),
        (1, mk_path 1 (Some 0) (Some 1)),
        (2, mk_path 2 (Some 1) (Some 1)),
        (3, mk_path 3 (Some 1) (Some 1)),
        (4, mk_path 4 (Some 3) (Some 1)),
        (5, mk_path 5 (Some 4) (Some 1)),
        (6, mk_path 6 (Some 4) (Some 2)),
        (7, mk_path 7 (Some 6) (Some 2)),
        (8, mk_path 8 (Some 6) (Some 2)),
        (9, mk_path 9 (Some 8) (Some 2)),
        (10, mk_path 10 (Some 9) (Some 2)),
        (11, mk_path 11 (Some 10) (Some 2)),
        (12, mk_path 12 (Some 10) (Some 2)),
        (13, mk_path 13 (Some 3) (Some 1)),
        (14, mk_path 14 (Some 13) (Some 1))] no_path,
      scopes = table
       [(0, \<lparr>s_path = 0, s_parent = None, s_bindings = [''f'']\<rparr>),
        (1, \<lparr>s_path = 1, s_parent = Some 0, s_bindings = [''x'']\<rparr>),
        (2, \<lparr>s_path = 6, s_parent = Some 1, s_bindings = [''e'']\<rparr>)] no_scope,
      subtree = table
       [(0, [1, 2, 3, 4, 5, 6, 7, 8, 9, 10, 11, 12, 13, 14]),
        (1, [2, 3, 4, 5, 6, 7, 8, 9, 10, 11, 12, 13, 14]),
        (3, [4, 5, 6, 7, 8, 9, 10, 11, 12, 13, 14]),
        (4, [5, 6, 7, 8, 9, 10, 11, 12]),
        (6, [7, 8, 9, 10, 11, 12]),
        (8, [9, 10, 11, 12]),
        (9, [10, 11, 12]),
        (10, [11, 12]),
        (13, [14])] (\<lambda>p. []),
      isSupertypeOf = (\<lambda>T U. T = U)\<rparr>"

text \<open>
  The fourth program, a use in an inner function and a parameter that shadows:
  \<^verbatim>\<open>var x = 3; function g() { return x; } function h(x) { return x; }\<close>
  0 Program, 1 VariableDeclaration, 2 the declarator of \<open>x\<close>, 3 \<open>x\<close>, 4 \<open>3\<close>,
  5 FunctionDeclaration, 6 \<open>g\<close>, 7 the body, 8 ReturnStatement, 9 \<open>x\<close>,
  10 FunctionDeclaration, 11 \<open>h\<close>, 12 the parameter \<open>x\<close>, 13 the body,
  14 ReturnStatement, 15 \<open>x\<close>. Three scopes: 0 the program's, 1 that of \<open>g\<close>, which
  binds nothing, 2 that of \<open>h\<close>, which binds \<open>x\<close>.
\<close>

definition shadow_program :: store where
  "shadow_program =
     \<lparr>nodes = table
       [(0, mk_node ''Program''),
        (1, mk_node ''VariableDeclaration''),
        (2, (mk_node ''VariableDeclarator'')\<lparr>n_id := Some 3, n_init := Some 4\<rparr>),
        (3, b_identifier ''x''),
        (4, (mk_node ''Literal'')\<lparr>n_value := Some (LNumber 3)\<rparr>),
        (5, (mk_node ''FunctionDeclaration'')\<lparr>n_id := Some 6\<rparr>),
        (6, b_identifier ''g''),
        (7, mk_node ''BlockStatement''),
        (8, mk_node ''ReturnStatement''),
        (9, b_identifier ''x''),
        (10, (mk_node ''FunctionDeclaration'')\<lparr>n_id := Some 11\<rparr>),
        (11, b_identifier ''h''),
        (12, b_identifier ''x''),
        (13, mk_node ''BlockStatement''),
        (14, mk_node ''ReturnStatement''),
        (15, b_identifier ''x'')] (\<lambda>n. mk_node []),
      paths = table
       [(0, mk_path 0 None (Some 0)),
        (1, mk_path 1 (Some 0) (Some 0)),
        (2, mk_path 2 (Some 1) (Some 0)),
        (3, mk_path 3 (Some 2) (Some 0)),
        (4, mk_path 4 (Some 2) (Some 0)),
        (5, mk_path 5 (Some 0) (Some 1)),
        (6, mk_path 6 (Some 5) (Some 1)),
        (7, mk_path 7 (Some 5) (Some 1)),
        (8, mk_path 8 (Some 7) (Some 1)),
        (9, mk_path 9 (Some 8) (Some 1)),
        (10, mk_path 10 (Some 0) (Some 2)),
        (11, mk_path 11 (Some 10) (Some 2)),
        (12, mk_path 12 (Some 10) (Some 2)),
        (13, mk_path 13 (Some 10) (Some 2)),
        (14, mk_path 14 (Some 13) (Some 2)),
        (15, mk_path 15 (Some 14) (Some 2))] no_path,
      scopes = table
       [(0, \<lparr>s_path = 0, s_parent = None, s_bindings = [''x'', ''g'', ''h'']\<rparr>),
        (1, \<lparr>s_path = 5, s_parent = Some 0, s_bindings = []\<rparr>),
        (2, \<lparr>s_path = 10, s_parent = Some 0, s_bindings = [''x'']\<rparr>)] no_scope,
      subtree = table
       [(0, [1, 2, 3, 4, 5, 6, 7, 8, 9, 10, 11, 12, 13, 14, 15]),
        (1, [2, 3, 4]),
        (2, [3, 4]),
        (5, [6, 7, 8, 9]),
        (7, [8, 9]),
        (8, [9]),
        (10, [11, 12, 13, 14, 15]),
        (13, [14, 15]),
        (14, [15])] (\<lambda>p. []),
      isSupertypeOf = (\<lambda>T U. T = U)\<rparr>"

text \<open>
  The fifth program, declarators inside the initialiser of a declarator:
  \<^verbatim>\<open>var x = function() { var y = 1; var [a] = o; return y; };\<close>
  0 Program, 1 VariableDeclaration, 2 the declarator of \<open>x\<close>, 3 \<open>x\<close>,
  4 FunctionExpression, 5 the body, 6 VariableDeclaration, 7 the declarator of \<open>y\<close>,
  8 \<open>y\<close>, 9 \<open>1\<close>, 10 VariableDeclaration, 11 the declarator of \<open>[a]\<close>,
  12 ArrayPattern, 13 \<open>a\<close>, 14 \<open>o\<close>, 15 ReturnStatement, 16 \<open>y\<close>. Two scopes:
  0 the program's, 1 the function's.
\<close>

definition nested_program :: store where
  "nested_program =
     \<lparr>nodes = table
       [(0, mk_node ''Program''),
        (1, mk_node ''VariableDeclaration''),
        (2, (mk_node ''VariableDeclarator'')\<lparr>n_id := Some 3, n_init := Some 4\<rparr>),
        (3, b_identifier ''x''),
        (4, mk_node ''FunctionExpression''),
        (5, mk_node ''BlockStatement''),
        (6, mk_node ''VariableDeclaration''),
        (7, (mk_node ''VariableDeclarator'')\<lparr>n_id := Some 8, n_init := Some 9\<rparr>),
        (8, b_identifier ''y''),
        (9, (mk_node ''Literal'')\<lparr>n_value := Some (LNumber 1)\<rparr>),
        (10, mk_node ''VariableDeclaration''),
        (11, (mk_node ''VariableDeclarator'')\<lparr>n_id := Some 12, n_init := Some 14\<rparr>),
        (12, mk_node ''ArrayPattern''),
        (13, b_identifier ''a''),
        (14, b_identifier ''o''),
        (15, mk_node ''ReturnStatement''),
        (16, b_identifier ''y'')] (\<lambda>n. mk_node []),
      paths = table
       [(0, mk_path 0 None (Some 0)),
        (1, mk_path 1 (Some 0) (Some 0)),
        (2, mk_path 2 (Some 1) (Some 0)),
        (3, mk_path 3 (Some 2) (Some 0)),
        (4, mk_path 4 (Some 2) (Some 1)),
        (5, mk_path 5 (Some 4) (Some 1)),
        (6, mk_path 6 (Some 5) (Some 1)),
        (7, mk_path 7 (Some 6) (Some 1)),
        (8, mk_path 8 (Some 7) (Some 1)),
        (9, mk_path 9 (Some 7) (Some 1)),
        (10, mk_path 10 (Some 5) (Some 1)),
        (11, mk_path 11 (Some 10) (Some 1)),
        (12, mk_path 12 (Some 11) (Some 1)),
        (13, mk_path 13 (Some 12) (Some 1)),
        (14, mk_path 14 (Some 11) (Some 1)),
        (15, mk_path 15 (Some 5) (Some 1)),
        (16, mk_path 16 (Some 15) (Some 1))] no_path,
      scopes = table
       [(0, \<lparr>s_path = 0, s_parent = None, s_bindings = [''x'']\<rparr>),
        (1, \<lparr>s_path = 4, s_parent = Some 0, s_bindings = [''y'', ''a'']\<rparr>)] no_scope,
      subtree = table
       [(0, [1, 2, 3, 4, 5, 6, 7, 8, 9, 10, 11, 12, 13, 14, 15, 16]),
        (1, [2, 3, 4, 5, 6, 7, 8, 9, 10, 11, 12, 13, 14, 15, 16]),
        (2, [3, 4, 5, 6, 7, 8, 9, 10, 11, 12, 13, 14, 15, 16]),
        (4, [5, 6, 7, 8, 9, 10, 11, 12, 13, 14, 15, 16]),
        (5, [6, 7, 8, 9, 10, 11, 12, 13, 14, 15, 16]),
        (6, [7, 8, 9]),
        (7, [8, 9]),
        (10, [11, 12, 13, 14]),
        (11, [12, 13, 14]),
        (12, [13]),
        (15, [16])] (\<lambda>p. []),
      isSupertypeOf = (\<lambda>T U. T = U)\<rparr>"



section \<open>The words of the specification\<close>

text \<open>
  The four name-only positions of section 4.1, as the specification lists them: the
  property of a non-computed member access, the non-computed key of an object property,
  the non-computed key of a method definition, the key of a type-member declaration.
\<close>

definition name_only_position :: "store \<Rightarrow> node \<Rightarrow> nid \<Rightarrow> bool" where
  "name_only_position st parent nd \<longleftrightarrow>
     (check st ''MemberExpression'' parent \<and> \<not> n_computed parent \<and> n_property parent = Some nd) \<or>
     (check st ''Property'' parent \<and> \<not> n_computed parent \<and> n_key parent = Some nd) \<or>
     (check st ''MethodDefinition'' parent \<and> \<not> n_computed parent \<and> n_key parent = Some nd) \<or>
     (check st ''ObjectTypeProperty'' parent \<and> n_key parent = Some nd)"

text \<open>
  The binding occurrences of section 4.1: the identifier is the \<open>id\<close> of its parent,
  and the parent is a variable declarator, a function declaration, a class declaration or
  a type-alias declaration.
\<close>

definition binding_occurrence :: "store \<Rightarrow> node \<Rightarrow> nid \<Rightarrow> bool" where
  "binding_occurrence st parent nd \<longleftrightarrow>
     n_id parent = Some nd \<and>
     (check st ''VariableDeclarator'' parent \<or> check st ''FunctionDeclaration'' parent \<or>
      check st ''ClassDeclaration'' parent \<or> check st ''TypeAlias'' parent)"

text \<open>
  The declaring scope of section 4.2: walking \<open>start\<close>, then its parent, and so on, the
  first scope that declares the name. \<open>resolves\<close>: some scope of the chain declares the
  name.
\<close>

definition first_declaring :: "store \<Rightarrow> string option \<Rightarrow> sid option \<Rightarrow> sid \<Rightarrow> bool" where
  "first_declaring st name start u \<longleftrightarrow>
     (\<exists>k. ancestor st k start = Some u \<and> declares st u name \<and>
          (\<forall>j<k. \<forall>v. ancestor st j start = Some v \<longrightarrow> \<not> declares st v name))"

definition resolves :: "store \<Rightarrow> string option \<Rightarrow> sid option \<Rightarrow> bool" where
  "resolves st name start \<longleftrightarrow> (\<exists>k u. ancestor st k start = Some u \<and> declares st u name)"

text \<open>
  The identifier paths below a path that carry a given name: the candidates of a search.
\<close>

definition named_below :: "store \<Rightarrow> pid \<Rightarrow> string option \<Rightarrow> pid \<Rightarrow> bool" where
  "named_below st r name p \<longleftrightarrow>
     p \<in> set (subtree st r) \<and> name \<noteq> None \<and>
     (case p_value (paths st p) of
        None \<Rightarrow> False
      | Some n \<Rightarrow> check st ''Identifier'' (nodes st n) \<and> n_name (nodes st n) = name)"

text \<open>
  The contract of section 7 ("callers must only resolve names known to be declared
  somewhere reachable"), for one declarator of \<open>removeUnreferenced\<close>: the declarator has
  an \<open>id\<close>; and if the \<open>id\<close> has a non-empty name, the declarator has a scope, its name
  resolves from that scope, and every identifier of that name below the path of the scope
  has a parent and, unless it is a binding occurrence or stands in a name-only position,
  resolves from its own scope.
\<close>

definition removal_defined :: "store \<Rightarrow> pid \<Rightarrow> bool" where
  "removal_defined st d \<longleftrightarrow>
     (case n_id (nodes st (p_node (paths st d))) of
        None \<Rightarrow> False
      | Some i \<Rightarrow>
          n_name (nodes st i) = None \<or> n_name (nodes st i) = Some [] \<or>
          (case p_scope (paths st d) of
             None \<Rightarrow> False
           | Some s \<Rightarrow>
               resolves st (n_name (nodes st i)) (Some s) \<and>
               (\<forall>p\<in>set (subtree st (s_path (scopes st s))).
                   named_below st (s_path (scopes st s)) (n_name (nodes st i)) p \<longrightarrow>
                   (case p_parent (paths st p) of
                      None \<Rightarrow> False
                    | Some q \<Rightarrow>
                        binding_occurrence st (nodes st (p_node (paths st q)))
                          (p_node (paths st p)) \<or>
                        name_only_position st (nodes st (p_node (paths st q)))
                          (p_node (paths st p)) \<or>
                        resolves st (n_name (nodes st i)) (p_scope (paths st p))))))"

text \<open>
  The tree after a removal (section 4.5, step 3), where \<open>out\<close> lists the pruned
  declarators: nodes, paths and scopes are as before and no subtree has grown; every pruned
  path is gone from every subtree; a declaration statement all of whose declarators were
  pruned is gone; and a path that is gone is a pruned declarator, or lies below one, or is
  the declaration statement of one, left without declarators, or lies below that statement
  without being a declarator of it.
\<close>

definition tree_after_removal :: "store \<Rightarrow> pid list \<Rightarrow> store \<Rightarrow> bool" where
  "tree_after_removal st out st' \<longleftrightarrow>
     nodes st' = nodes st \<and> paths st' = paths st \<and> scopes st' = scopes st \<and>
     isSupertypeOf st' = isSupertypeOf st \<and>
     (\<forall>r. set (subtree st' r) \<subseteq> set (subtree st r)) \<and>
     (\<forall>d\<in>set out. \<forall>r. d \<notin> set (subtree st' r)) \<and>
     (\<forall>q. check st ''VariableDeclaration'' (nodes st (p_node (paths st q))) \<and>
          (\<exists>p\<in>set out. p_parent (paths st p) = Some q) \<and>
          (\<forall>c\<in>set (children st q). c \<in> set out)
          \<longrightarrow> (\<forall>r. q \<notin> set (subtree st' r))) \<and>
     (\<forall>r x. x \<in> set (subtree st r) \<and> x \<notin> set (subtree st' r) \<longrightarrow>
        (\<exists>p\<in>set out. x = p \<or> x \<in> set (subtree st p) \<or>
           (\<exists>q. p_parent (paths st p) = Some q \<and>
                check st ''VariableDeclaration'' (nodes st (p_node (paths st q))) \<and>
                children st' q = [] \<and>
                (x = q \<or> (x \<in> set (subtree st q) \<and> p_parent (paths st x) \<noteq> Some q)))))"





text \<open>The module names an argument of \<open>requiresModule\<close> stands for, as a list.\<close>

fun names_list :: "names_arg \<Rightarrow> string list" where
  "names_list NoNames = []"
| "names_list (OneName s) = [s]"
| "names_list (NameList ns) = ns"

text \<open>The collection a call returns, without the store.\<close>

definition returned :: "(store \<times> pid list) res \<Rightarrow> pid list res" where
  "returned r = map_option (map_sum id snd) r"



section \<open>The scope walk\<close>

lemmas program_defs =
  table_def mk_node_def mk_path_def no_path_def no_scope_def b_identifier_def b_literal_def

text \<open>
  One step of the loop: a scope that does not declare the name hands over to its parent.
\<close>

lemma declaringScope_step:
  "\<not> declares st s name \<Longrightarrow>
   declaringScope st name (Some s) = declaringScope st name (s_parent (scopes st s))"
  by (subst declaringScope.simps) simp

lemma declaringScope_first:
  "ancestor st k start = Some t \<Longrightarrow> declares st t name \<Longrightarrow>
   (\<forall>j<k. \<forall>u. ancestor st j start = Some u \<longrightarrow> \<not> declares st u name) \<Longrightarrow>
   declaringScope st name start = Ret t"
proof (induction k arbitrary: start)
  case 0
  then show ?case by (simp add: declaringScope.simps)
next
  case (Suc k)
  from Suc.prems(1) obtain s where s: "start = Some s"
    by (cases start) auto
  from Suc.prems(3) s have nd: "\<not> declares st s name"
    by (metis ancestor.simps(1) zero_less_Suc)
  have up: "ancestor st k (s_parent (scopes st s)) = Some t"
    using Suc.prems(1) s by simp
  have rest: "\<forall>j<k. \<forall>u. ancestor st j (s_parent (scopes st s)) = Some u \<longrightarrow> \<not> declares st u name"
  proof (intro allI impI)
    fix j u assume "j < k" and "ancestor st j (s_parent (scopes st s)) = Some u"
    then have "Suc j < Suc k" and "ancestor st (Suc j) start = Some u" using s by simp_all
    then show "\<not> declares st u name" using Suc.prems(3) by blast
  qed
  show ?case
    using Suc.IH [OF up Suc.prems(2) rest] declaringScope_step [OF nd] s by simp
qed

text \<open>
  C9. If some scope of the chain that starts at \<open>start\<close> declares the name (the \<open>k\<close>-th,
  say), the loop returns: its result is the first scope of the chain, \<open>start\<close> included,
  that declares the name, and no scope before it in the chain does. The loop is a partial
  function, so that it returns is part of what is proved; no assumption on the chain beyond
  the declaring scope is needed.
\<close>

theorem declaringScope_returns_nearest:
  assumes "ancestor st k start = Some t" and "declares st t name"
  shows "\<exists>j u. j \<le> k \<and> declaringScope st name start = Ret u \<and> ancestor st j start = Some u \<and>
           declares st u name \<and>
           (\<forall>i<j. \<forall>v. ancestor st i start = Some v \<longrightarrow> \<not> declares st v name)"
proof -
  define P where "P j = (\<exists>u. ancestor st j start = Some u \<and> declares st u name)" for j
  have Pk: "P k" using assms by (simp add: P_def)
  define j where "j = (LEAST j. P j)"
  have Pj: "P j" unfolding j_def using Pk by (rule LeastI)
  have jk: "j \<le> k" unfolding j_def using Pk by (rule Least_le)
  have least: "\<And>i. i < j \<Longrightarrow> \<not> P i" unfolding j_def by (rule not_less_Least)
  from Pj obtain u where u: "ancestor st j start = Some u" "declares st u name"
    by (auto simp: P_def)
  have before: "\<forall>i<j. \<forall>v. ancestor st i start = Some v \<longrightarrow> \<not> declares st v name"
    using least by (auto simp: P_def)
  have "declaringScope st name start = Ret u"
    using u before by (rule declaringScope_first)
  then show ?thesis using jk u before by blast
qed

text \<open>
  In the third program the walk for \<open>x\<close> from the catch clause's scope (2) passes that
  scope, which binds only \<open>e\<close>, and returns the function's scope (1), one step up.
\<close>

theorem declaringScope_returns_nearest_witness:
  "ancestor catch_program 2 (Some 2) = Some 0 \<and>
   \<not> declares catch_program 2 (Some ''x'') \<and>
   declares catch_program 1 (Some ''x'') \<and>
   declaringScope catch_program (Some ''x'') (Some 2) = Ret 1"
proof -
  have a: "ancestor catch_program 1 (Some 2) = Some 1"
    by (simp add: catch_program_def program_defs)
  have a2: "ancestor catch_program 2 (Some 2) = Some 0"
    by (simp add: catch_program_def program_defs numeral_2_eq_2)
  have d: "declares catch_program 1 (Some ''x'')"
    by (simp add: declares_def catch_program_def program_defs)
  have n: "\<not> declares catch_program 2 (Some ''x'')"
    by (simp add: declares_def catch_program_def program_defs)
  from declaringScope_returns_nearest [OF a d]
  obtain j u where ju: "j \<le> 1" "declaringScope catch_program (Some ''x'') (Some 2) = Ret u"
    "ancestor catch_program j (Some 2) = Some u" "declares catch_program u (Some ''x'')"
    by blast
  have "j = 0 \<or> j = 1" using ju(1) by auto
  then have "u = 1"
  proof
    assume "j = 0"
    then have "u = 2" using ju(3) by simp
    then show ?thesis using ju(4) n by simp
  next
    assume "j = 1"
    then show ?thesis using ju(3) a by simp
  qed
  then show ?thesis using a2 n d ju(2) by simp
qed

text \<open>
  C6. If the chain that starts at \<open>start\<close> ends (after \<open>n\<close> steps the parent is
  \<open>null\<close>) and no scope of it declares the name, the loop does not return a scope and
  does not run on: it throws. The error is the \<open>TypeError\<close> of calling \<open>declares\<close> on
  the \<open>null\<close> parent of the root; the source has no error class of its own, and this
  error is what reaches the caller, where the specification speaks of a
  \<open>ScopeResolutionError\<close>.
\<close>

theorem declaringScope_exhausted:
  assumes "ancestor st n start = None"
    and "\<forall>k u. ancestor st k start = Some u \<longrightarrow> \<not> declares st u name"
  shows "declaringScope st name start = Throw TypeError"
  using assms
proof (induction n arbitrary: start)
  case 0
  then show ?case by (simp add: declaringScope.simps)
next
  case (Suc n)
  show ?case
  proof (cases start)
    case None
    then show ?thesis by (simp add: declaringScope.simps)
  next
    case (Some s)
    have nd: "\<not> declares st s name"
      using Suc.prems(2) Some by (metis ancestor.simps(1))
    have up: "ancestor st n (s_parent (scopes st s)) = None"
      using Suc.prems(1) Some by simp
    have rest: "\<forall>k u. ancestor st k (s_parent (scopes st s)) = Some u \<longrightarrow> \<not> declares st u name"
    proof (intro allI impI)
      fix k u assume "ancestor st k (s_parent (scopes st s)) = Some u"
      then have "ancestor st (Suc k) start = Some u" using Some by simp
      then show "\<not> declares st u name" using Suc.prems(2) by blast
    qed
    show ?thesis
      using Suc.IH [OF up rest] declaringScope_step [OF nd] Some by simp
  qed
qed

text \<open>
  In the third program no scope declares \<open>zz\<close>; the chain from the catch clause's scope
  has three scopes and then ends, and the walk for \<open>zz\<close> throws.
\<close>

theorem declaringScope_exhausted_witness:
  "ancestor catch_program 3 (Some 2) = None \<and>
   (\<forall>u. \<not> declares catch_program u (Some ''zz'')) \<and>
   declaringScope catch_program (Some ''zz'') (Some 2) = Throw TypeError"
proof -
  have a: "ancestor catch_program 3 (Some 2) = None"
    by (simp add: catch_program_def program_defs numeral_3_eq_3)
  have n: "\<forall>u. \<not> declares catch_program u (Some ''zz'')"
    by (simp add: declares_def catch_program_def program_defs)
  have h: "\<forall>k u. ancestor catch_program k (Some 2) = Some u \<longrightarrow>
             \<not> declares catch_program u (Some ''zz'')"
    using n by blast
  from declaringScope_exhausted [OF a h] a n show ?thesis by blast
qed

text \<open>
  The loop and the chain. The walk returns the scope \<open>u\<close> exactly when \<open>u\<close> is the
  first scope of the chain to declare the name, and it returns some scope exactly when
  some scope of the chain declares the name.
\<close>

lemma first_declaring_here:
  "declares st s name \<Longrightarrow> first_declaring st name (Some s) s"
  unfolding first_declaring_def by (rule exI [of _ 0]) simp

lemma first_declaring_up:
  assumes "\<not> declares st s name" and "first_declaring st name (s_parent (scopes st s)) u"
  shows "first_declaring st name (Some s) u"
proof -
  from assms(2) obtain k where k: "ancestor st k (s_parent (scopes st s)) = Some u"
    "declares st u name"
    "\<forall>j<k. \<forall>v. ancestor st j (s_parent (scopes st s)) = Some v \<longrightarrow> \<not> declares st v name"
    unfolding first_declaring_def by blast
  have "\<forall>j<Suc k. \<forall>v. ancestor st j (Some s) = Some v \<longrightarrow> \<not> declares st v name"
  proof (intro allI impI)
    fix j v assume j: "j < Suc k" and a: "ancestor st j (Some s) = Some v"
    show "\<not> declares st v name"
    proof (cases j)
      case 0
      then show ?thesis using a assms(1) by simp
    next
      case (Suc j')
      then show ?thesis using a j k(3) by simp
    qed
  qed
  moreover have "ancestor st (Suc k) (Some s) = Some u" using k(1) by simp
  ultimately show ?thesis unfolding first_declaring_def using k(2) by blast
qed

lemma declaringScope_Some_first:
  assumes "declaringScope st name start = Some y"
  shows "\<forall>u. y = Inr u \<longrightarrow> first_declaring st name start u"
proof (rule declaringScope.raw_induct
    [where P = "\<lambda>st name start y. \<forall>u. y = Inr u \<longrightarrow> first_declaring st name start u",
      OF _ assms])
  fix f :: "store \<Rightarrow> string option \<Rightarrow> sid option \<Rightarrow> (error + sid) option"
  fix st name cur y
  assume IH: "\<And>st name cur y. f st name cur = Some y \<Longrightarrow>
                \<forall>u. y = Inr u \<longrightarrow> first_declaring st name cur u"
  assume eq: "(case cur of
                 None \<Rightarrow> Throw TypeError
               | Some s \<Rightarrow> if declares st s name then Ret s
                           else f st name (s_parent (scopes st s))) = Some y"
  show "\<forall>u. y = Inr u \<longrightarrow> first_declaring st name cur u"
  proof (cases cur)
    case None
    then show ?thesis using eq by auto
  next
    case (Some s)
    show ?thesis
    proof (cases "declares st s name")
      case True
      then show ?thesis using eq Some first_declaring_here by auto
    next
      case False
      then have "f st name (s_parent (scopes st s)) = Some y" using eq Some by simp
      from IH [OF this] show ?thesis using False Some first_declaring_up by blast
    qed
  qed
qed

lemma declaringScope_Ret_iff:
  "declaringScope st name start = Ret u \<longleftrightarrow> first_declaring st name start u"
proof
  assume "declaringScope st name start = Ret u"
  from declaringScope_Some_first [OF this] show "first_declaring st name start u" by simp
next
  assume "first_declaring st name start u"
  then show "declaringScope st name start = Ret u"
    unfolding first_declaring_def using declaringScope_first by blast
qed


lemma resolves_first:
  "resolves st name start \<longleftrightarrow> (\<exists>u. first_declaring st name start u)"
proof
  assume "resolves st name start"
  then obtain k t where kt: "ancestor st k start = Some t" "declares st t name"
    unfolding resolves_def by blast
  define P where "P j = (\<exists>u. ancestor st j start = Some u \<and> declares st u name)" for j
  have Pk: "P k" using kt by (auto simp: P_def)
  define m where "m = (LEAST j. P j)"
  have Pm: "P m" unfolding m_def using Pk by (rule LeastI)
  have least: "\<And>i. i < m \<Longrightarrow> \<not> P i" unfolding m_def by (rule not_less_Least)
  from Pm obtain u where "ancestor st m start = Some u" "declares st u name"
    by (auto simp: P_def)
  moreover have "\<forall>i<m. \<forall>v. ancestor st i start = Some v \<longrightarrow> \<not> declares st v name"
    using least by (auto simp: P_def)
  ultimately show "\<exists>u. first_declaring st name start u"
    unfolding first_declaring_def by blast
next
  assume "\<exists>u. first_declaring st name start u"
  then show "resolves st name start"
    unfolding first_declaring_def resolves_def by blast
qed

lemma resolves_iff: "resolves st name start \<longleftrightarrow> (\<exists>u. declaringScope st name start = Ret u)"
  by (simp add: resolves_first declaringScope_Ret_iff)

text \<open>The two predicates on the chain can be run: the walk decides them.\<close>

lemma first_declaring_code [code]:
  "first_declaring st name start u = (declaringScope st name start = Ret u)"
  by (simp add: declaringScope_Ret_iff)

lemma resolves_code [code]:
  "resolves st name start =
     (case declaringScope st name start of Some (Inr u) \<Rightarrow> True | _ \<Rightarrow> False)"
  by (auto simp: resolves_iff split: option.splits sum.splits)

section \<open>The classifier and the matcher\<close>

text \<open>
  C2. \<open>isVariable\<close> returns false exactly in the four name-only positions, and true in
  every other position under a parent; a path without a parent makes it throw. The property
  of a computed member access is a variable. The answer is read off the parent node alone:
  replacing every scope, and the scope of every path, leaves it as it is.
\<close>

theorem isVariable_classifies:
  "isVariable st p =
     (case p_parent (paths st p) of
        None \<Rightarrow> Inl TypeError
      | Some q \<Rightarrow> Inr (\<not> name_only_position st (nodes st (p_node (paths st q)))
                                                (p_node (paths st p)))) \<and>
   (\<forall>q. p_parent (paths st p) = Some q \<and>
        check st ''MemberExpression'' (nodes st (p_node (paths st q))) \<and>
        n_property (nodes st (p_node (paths st q))) = Some (p_node (paths st p)) \<and>
        n_computed (nodes st (p_node (paths st q))) \<and>
        n_key (nodes st (p_node (paths st q))) = None
        \<longrightarrow> isVariable st p = Inr True) \<and>
   (\<forall>sc f. isVariable (st\<lparr>scopes := sc, paths := \<lambda>x. (paths st x)\<lparr>p_scope := f x\<rparr>\<rparr>) p =
           isVariable st p)"
proof (intro conjI allI impI)
  show "isVariable st p =
     (case p_parent (paths st p) of
        None \<Rightarrow> Inl TypeError
      | Some q \<Rightarrow> Inr (\<not> name_only_position st (nodes st (p_node (paths st q)))
                                                (p_node (paths st p))))"
    by (auto simp: isVariable_def name_only_position_def Let_def split: option.splits)
next
  fix q
  assume "p_parent (paths st p) = Some q \<and>
        check st ''MemberExpression'' (nodes st (p_node (paths st q))) \<and>
        n_property (nodes st (p_node (paths st q))) = Some (p_node (paths st p)) \<and>
        n_computed (nodes st (p_node (paths st q))) \<and>
        n_key (nodes st (p_node (paths st q))) = None"
  then show "isVariable st p = Inr True"
    by (simp add: isVariable_def Let_def)
next
  fix sc f
  show "isVariable (st\<lparr>scopes := sc, paths := \<lambda>x. (paths st x)\<lparr>p_scope := f x\<rparr>\<rparr>) p =
           isVariable st p"
    by (simp add: isVariable_def check_def Let_def split: option.splits)
qed

text \<open>
  In the first program \<open>foo\<close> of \<open>bar.foo\<close> (15) is no variable, \<open>bar\<close> of
  \<open>foo[bar]\<close> (19) and \<open>bar\<close> of \<open>bar.foo\<close> (14) are, and the root has no parent.
\<close>

theorem isVariable_classifies_witness:
  "isVariable require_program 15 = Inr False \<and>
   isVariable require_program 19 = Inr True \<and>
   isVariable require_program 14 = Inr True \<and>
   isVariable require_program 0 = Inl TypeError"
proof -
  have a15: "(case p_parent (paths require_program 15) of
                None \<Rightarrow> Inl TypeError
              | Some q \<Rightarrow> Inr (\<not> name_only_position require_program
                                   (nodes require_program (p_node (paths require_program q)))
                                   (p_node (paths require_program 15)))) = Inr False"
    by code_simp
  have a14: "(case p_parent (paths require_program 14) of
                None \<Rightarrow> Inl TypeError
              | Some q \<Rightarrow> Inr (\<not> name_only_position require_program
                                   (nodes require_program (p_node (paths require_program q)))
                                   (p_node (paths require_program 14)))) = Inr True"
    by code_simp
  have a0: "(case p_parent (paths require_program 0) of
                None \<Rightarrow> Inl TypeError
              | Some q \<Rightarrow> Inr (\<not> name_only_position require_program
                                   (nodes require_program (p_node (paths require_program q)))
                                   (p_node (paths require_program 0)))) = Inl TypeError"
    by code_simp
  have c19: "p_parent (paths require_program 19) = Some 17 \<and>
        check require_program ''MemberExpression'' (nodes require_program (p_node (paths require_program 17))) \<and>
        n_property (nodes require_program (p_node (paths require_program 17))) =
          Some (p_node (paths require_program 19)) \<and>
        n_computed (nodes require_program (p_node (paths require_program 17))) \<and>
        n_key (nodes require_program (p_node (paths require_program 17))) = None"
    by code_simp
  have "isVariable require_program 15 = Inr False"
    using isVariable_classifies [of require_program 15] a15 by (simp only:)
  moreover have "isVariable require_program 19 = Inr True"
    using isVariable_classifies [of require_program 19] c19 by blast
  moreover have "isVariable require_program 14 = Inr True"
    using isVariable_classifies [of require_program 14] a14 by (simp only:)
  moreover have "isVariable require_program 0 = Inl TypeError"
    using isVariable_classifies [of require_program 0] a0 by (simp only:)
  ultimately show ?thesis by blast
qed

text \<open>What \<open>isDeclaredBy\<close> returns when the walk from the declarator's scope returns.\<close>

lemma isDeclaredBy_pred:
  assumes "n_id (nodes st (p_node (paths st D))) = Some i"
    and "declaringScope st (n_name (nodes st i)) (p_scope (paths st D)) = Ret sD"
  shows "isDeclaredBy st D = Ret (\<lambda>st' identPath.
           (case isVariable st' identPath of
              Inl e \<Rightarrow> Throw e
            | Inr False \<Rightarrow> Ret False
            | Inr True \<Rightarrow>
                bindR (declaringScope st' (n_name (nodes st i)) (p_scope (paths st' identPath)))
                  (\<lambda>s. Ret (s_path (scopes st' s) = s_path (scopes st' sD)))))"
  using assms by (simp add: isDeclaredBy_def bindR_def Let_def)

text \<open>
  C1. Let \<open>D\<close> be a declarator path whose \<open>id\<close> is the node \<open>i\<close>, with name
  \<open>N = n_name (nodes st i)\<close>, and let \<open>sD\<close> be the declaring scope of \<open>N\<close> from the
  scope of \<open>D\<close>: the first scope, walking upward from that scope, itself included, that
  declares \<open>N\<close>. Then \<open>isDeclaredBy\<close> returns a predicate, and on every candidate path
  \<open>P\<close> the predicate returns true exactly when \<open>isVariable\<close> holds of \<open>P\<close> and the
  declaring scope of \<open>N\<close> from the scope of \<open>P\<close>, found in the same way, is the same
  scope \<open>sD\<close>. A candidate whose declaring scope is another scope (shadowing) is never
  matched. The source compares the scopes by their \<open>path\<close>; two scopes are the same
  scope exactly when their paths are the same path, as each path that owns a scope owns
  one, which is the assumption \<open>inj\<close>.
\<close>

theorem isDeclaredBy_matches:
  assumes "n_id (nodes st (p_node (paths st D))) = Some i"
    and "first_declaring st (n_name (nodes st i)) (p_scope (paths st D)) sD"
    and "inj (\<lambda>s. s_path (scopes st s))"
  shows "\<exists>pred. isDeclaredBy st D = Ret pred \<and>
           (\<forall>P. pred st P = Ret True \<longleftrightarrow>
                  isVariable st P = Inr True \<and>
                  first_declaring st (n_name (nodes st i)) (p_scope (paths st P)) sD) \<and>
           (\<forall>P s. first_declaring st (n_name (nodes st i)) (p_scope (paths st P)) s \<and>
                   s \<noteq> sD \<longrightarrow> pred st P \<noteq> Ret True)"
proof -
  have eq: "\<And>a b. s_path (scopes st a) = s_path (scopes st b) \<longleftrightarrow> a = b"
    using assms(3) by (auto dest: injD)
  have w: "declaringScope st (n_name (nodes st i)) (p_scope (paths st D)) = Ret sD"
    using assms(2) by (simp add: declaringScope_Ret_iff)
  have fd: "\<And>P s. first_declaring st (n_name (nodes st i)) (p_scope (paths st P)) s \<longleftrightarrow>
                  declaringScope st (n_name (nodes st i)) (p_scope (paths st P)) = Ret s"
    by (simp add: declaringScope_Ret_iff)
  show ?thesis
    unfolding isDeclaredBy_pred [OF assms(1) w] fd
    by (auto simp: bindR_def eq split: option.splits sum.splits bool.splits)
qed

text \<open>
  In the fourth program the declarator of \<open>x\<close> (2) matches the use inside \<open>g\<close> (9):
  the scope of \<open>g\<close> does not declare \<open>x\<close>, and its parent, the program's scope, is the
  first that does. It does not match the use inside \<open>h\<close> (15), whose own scope declares
  \<open>x\<close>.
\<close>

theorem isDeclaredBy_matches_witness:
  "n_id (nodes shadow_program (p_node (paths shadow_program 2))) = Some 3 \<and>
   n_name (nodes shadow_program 3) = Some ''x'' \<and>
   first_declaring shadow_program (Some ''x'') (p_scope (paths shadow_program 2)) 0 \<and>
   inj (\<lambda>s. s_path (scopes shadow_program s)) \<and>
   p_scope (paths shadow_program 9) = Some 1 \<and>
   \<not> declares shadow_program 1 (Some ''x'') \<and>
   ancestor shadow_program 1 (Some 1) = Some 0 \<and>
   declares shadow_program 0 (Some ''x'') \<and>
   p_scope (paths shadow_program 15) = Some 2 \<and>
   declares shadow_program 2 (Some ''x'') \<and>
   (\<exists>pred. isDeclaredBy shadow_program 2 = Ret pred \<and>
      pred shadow_program 9 = Ret True \<and> pred shadow_program 15 \<noteq> Ret True)"
proof -
  have i: "n_id (nodes shadow_program (p_node (paths shadow_program 2))) = Some 3"
    by code_simp
  have nm: "n_name (nodes shadow_program 3) = Some ''x''"
    by code_simp
  have s2: "p_scope (paths shadow_program 2) = Some 0" by code_simp
  have s9: "p_scope (paths shadow_program 9) = Some 1" by code_simp
  have s15: "p_scope (paths shadow_program 15) = Some 2" by code_simp
  have d0: "declares shadow_program 0 (Some ''x'')" by code_simp
  have d1: "\<not> declares shadow_program 1 (Some ''x'')" by code_simp
  have d2: "declares shadow_program 2 (Some ''x'')" by code_simp
  have up: "s_parent (scopes shadow_program 1) = Some 0" by code_simp
  have a1: "ancestor shadow_program 1 (Some 1) = Some 0" using up by simp
  have fD: "first_declaring shadow_program (n_name (nodes shadow_program 3))
              (p_scope (paths shadow_program 2)) 0"
    unfolding nm s2 using d0 by (rule first_declaring_here)
  have f9: "first_declaring shadow_program (n_name (nodes shadow_program 3))
              (p_scope (paths shadow_program 9)) 0"
    unfolding nm s9 using d1
  proof (rule first_declaring_up)
    show "first_declaring shadow_program (Some ''x'') (s_parent (scopes shadow_program 1)) 0"
      unfolding up using d0 by (rule first_declaring_here)
  qed
  have f15: "first_declaring shadow_program (n_name (nodes shadow_program 3))
              (p_scope (paths shadow_program 15)) 2"
    unfolding nm s15 using d2 by (rule first_declaring_here)
  have sc: "scopes shadow_program =
              table [(0, \<lparr>s_path = 0, s_parent = None, s_bindings = [''x'', ''g'', ''h'']\<rparr>),
                     (1, \<lparr>s_path = 5, s_parent = Some 0, s_bindings = []\<rparr>),
                     (2, \<lparr>s_path = 10, s_parent = Some 0, s_bindings = [''x'']\<rparr>)] no_scope"
    by (simp add: shadow_program_def)
  have j: "inj (\<lambda>s. s_path (scopes shadow_program s))"
    unfolding sc by (auto simp: inj_def table_def no_scope_def split: if_splits)
  have v: "isVariable shadow_program 9 = Inr True"
    by code_simp
  from isDeclaredBy_matches [OF i fD j] obtain pred where
    p: "isDeclaredBy shadow_program 2 = Ret pred"
    and t: "\<And>P. pred shadow_program P = Ret True \<longleftrightarrow>
                  isVariable shadow_program P = Inr True \<and>
                  first_declaring shadow_program (n_name (nodes shadow_program 3))
                    (p_scope (paths shadow_program P)) 0"
    and f: "\<And>P s. first_declaring shadow_program (n_name (nodes shadow_program 3))
                    (p_scope (paths shadow_program P)) s \<and> s \<noteq> 0 \<Longrightarrow>
                  pred shadow_program P \<noteq> Ret True"
    by blast
  have t9: "pred shadow_program 9 = Ret True" using t [of 9] v f9 by blast
  have f15': "pred shadow_program 15 \<noteq> Ret True" using f [of 15 2] f15 by simp
  have fD': "first_declaring shadow_program (Some ''x'') (p_scope (paths shadow_program 2)) 0"
    using fD nm by simp
  show ?thesis using i nm fD' j s9 d1 a1 d0 s15 d2 p t9 f15' by blast
qed

section \<open>Module imports\<close>

text \<open>
  C10, as the code has it. \<open>requiresModule(names)\<close> holds of a path exactly when its value
  is a \<open>VariableDeclarator\<close> whose \<open>init\<close> is a \<open>CallExpression\<close> whose callee is
  equivalent to the identifier \<open>require\<close> and, when \<open>names\<close> is truthy, whose first
  argument is equivalent to the literal of one of the names. A single non-empty string
  stands for the list of that one string. An argument that is falsy (no argument, or the
  empty string) asks for no name at all: every such declarator matches.
\<close>

theorem requiresModule_iff:
  "requiresModule st names p \<longleftrightarrow>
     (\<exists>d c f. p_value (paths st p) = Some d \<and> check st ''VariableDeclarator'' (nodes st d) \<and>
        n_init (nodes st d) = Some c \<and> check st ''CallExpression'' (nodes st c) \<and>
        n_callee (nodes st c) = Some f \<and> nodes st f = b_identifier ''require'' \<and>
        (truthy names \<longrightarrow>
           (\<exists>n a rest. n \<in> set (names_list names) \<and> n_arguments (nodes st c) = a # rest \<and>
                        nodes st a = b_literal n)))"
proof (cases names)
  case NoNames
  then show ?thesis
    by (auto simp: requiresModule_def astNodesAreEquivalent_def check_at_def Let_def
        split: option.splits)
next
  case (OneName s)
  then show ?thesis
    by (auto simp: requiresModule_def astNodesAreEquivalent_def check_at_def Let_def
        split: option.splits list.splits)
next
  case (NameList ns)
  then show ?thesis
    by (auto simp: requiresModule_def astNodesAreEquivalent_def check_at_def Let_def list_ex_iff
        split: option.splits list.splits)
qed

text \<open>
  In the first program the declarator of \<open>bar\<close> (6) requires \<open>module\<close>: its init is the
  call 8, with callee 9 and first argument 10.
\<close>

theorem requiresModule_iff_witness:
  "p_value (paths require_program 6) = Some 6 \<and>
   n_init (nodes require_program 6) = Some 8 \<and>
   n_callee (nodes require_program 8) = Some 9 \<and>
   n_arguments (nodes require_program 8) = [10] \<and>
   nodes require_program 10 = b_literal ''module'' \<and>
   truthy (OneName ''module'') \<and>
   requiresModule require_program (OneName ''module'') 6"
proof -
  have r: "p_value (paths require_program 6) = Some 6 \<and>
      check require_program ''VariableDeclarator'' (nodes require_program 6) \<and>
      n_init (nodes require_program 6) = Some 8 \<and>
      check require_program ''CallExpression'' (nodes require_program 8) \<and>
      n_callee (nodes require_program 8) = Some 9 \<and>
      nodes require_program 9 = b_identifier ''require'' \<and>
      ''module'' \<in> set (names_list (OneName ''module'')) \<and>
      n_arguments (nodes require_program 8) = [10] \<and>
      nodes require_program 10 = b_literal ''module''"
    by code_simp
  have "requiresModule require_program (OneName ''module'') 6"
    using requiresModule_iff [of require_program "OneName ''module''" 6] r by blast
  then show ?thesis using r by simp
qed

text \<open>
  The claim as it was stated takes every single string for a one-element list. The empty
  string is not taken so: with it the declarator of \<open>bar\<close>, which requires \<open>module\<close>,
  matches, and with the list of the empty string it does not.
\<close>

theorem requiresModule_empty_string_counterexample:
  "requiresModule require_program (OneName []) 6 \<and>
   \<not> requiresModule require_program (NameList [[]]) 6 \<and>
   nodes require_program 10 \<noteq> b_literal []"
  by code_simp

section \<open>Removing unreferenced declarators\<close>

text \<open>
  A filter that returns has had its callback return on every path, and has kept the paths
  on which it returned true; and a filter whose callback returns on every path returns.
\<close>

lemma Collection_filter_Ret:
  "Collection_filter f xs = Ret ys \<Longrightarrow>
   ys = filter (\<lambda>x. f x = Ret True) xs \<and> (\<forall>x\<in>set xs. \<exists>b. f x = Ret b)"
proof (induction xs arbitrary: ys)
  case Nil
  then show ?case by simp
next
  case (Cons x xs)
  from Cons.prems obtain b zs where b: "f x = Ret b" and zs: "Collection_filter f xs = Ret zs"
    and ys: "ys = (if b then x # zs else zs)"
    by (auto simp: bindR_def split: option.splits sum.splits)
  from Cons.IH [OF zs] b ys show ?case by auto
qed

lemma Collection_filter_total:
  "(\<forall>x\<in>set xs. \<exists>b. f x = Ret b) \<Longrightarrow>
   Collection_filter f xs = Ret (filter (\<lambda>x. f x = Ret True) xs)"
proof (induction xs)
  case Nil
  then show ?case by simp
next
  case (Cons x xs)
  then obtain b where b: "f x = Ret b" by auto
  have "Collection_filter f xs = Ret (filter (\<lambda>x. f x = Ret True) xs)"
    using Cons by simp
  then show ?case using b by (simp add: bindR_def)
qed

lemma Collection_filter_returns_iff:
  "(\<exists>ys. Collection_filter f xs = Ret ys) \<longleftrightarrow> (\<forall>x\<in>set xs. \<exists>b. f x = Ret b)"
  using Collection_filter_Ret [of f xs] Collection_filter_total [of xs f] by blast

text \<open>The search finds the identifiers of the name below the root.\<close>

lemma mem_Collection_find:
  "p \<in> set (Collection_find st [r] ''Identifier'' name) \<longleftrightarrow> named_below st r name p"
  by (auto simp: Collection_find_def matchName_def named_below_def split: option.splits)

text \<open>The two classifiers on a path, with and without a parent.\<close>

lemma isVariable_parent:
  "p_parent (paths st p) = Some q \<Longrightarrow>
   isVariable st p =
     Inr (\<not> name_only_position st (nodes st (p_node (paths st q))) (p_node (paths st p)))"
  by (auto simp: isVariable_def name_only_position_def Let_def)

lemma isVariable_root: "p_parent (paths st p) = None \<Longrightarrow> isVariable st p = Inl TypeError"
  by (simp add: isVariable_def)

lemma isDeclaratorID_parent:
  "p_parent (paths st p) = Some q \<Longrightarrow>
   isDeclaratorID st p =
     Inr (binding_occurrence st (nodes st (p_node (paths st q))) (p_node (paths st p)))"
  by (auto simp: isDeclaratorID_def binding_occurrence_def Let_def)

lemma isDeclaratorID_root:
  "p_parent (paths st p) = None \<Longrightarrow> isDeclaratorID st p = Inl TypeError"
  by (simp add: isDeclaratorID_def)

text \<open>What a predicate that \<open>isDeclaredBy\<close> has returned is, and where it returns.\<close>

lemma isDeclaredBy_Ret:
  assumes "isDeclaredBy st D = Ret pred"
  shows "\<exists>i sD. n_id (nodes st (p_node (paths st D))) = Some i \<and>
           declaringScope st (n_name (nodes st i)) (p_scope (paths st D)) = Ret sD \<and>
           pred = (\<lambda>st' identPath.
             (case isVariable st' identPath of
                Inl e \<Rightarrow> Throw e
              | Inr False \<Rightarrow> Ret False
              | Inr True \<Rightarrow>
                  bindR (declaringScope st' (n_name (nodes st i)) (p_scope (paths st' identPath)))
                    (\<lambda>s. Ret (s_path (scopes st' s) = s_path (scopes st' sD)))))"
  using assms
  by (auto simp: isDeclaredBy_def bindR_def Let_def split: option.splits sum.splits)

lemma isDeclaredBy_returns_iff:
  assumes "n_id (nodes st (p_node (paths st D))) = Some i"
  shows "(\<exists>pred. isDeclaredBy st D = Ret pred) \<longleftrightarrow>
         resolves st (n_name (nodes st i)) (p_scope (paths st D))"
proof
  assume "\<exists>pred. isDeclaredBy st D = Ret pred"
  then obtain pred where "isDeclaredBy st D = Ret pred" by blast
  from isDeclaredBy_Ret [OF this] assms show
    "resolves st (n_name (nodes st i)) (p_scope (paths st D))"
    by (auto simp: resolves_iff)
next
  assume "resolves st (n_name (nodes st i)) (p_scope (paths st D))"
  then obtain sD where
    "declaringScope st (n_name (nodes st i)) (p_scope (paths st D)) = Ret sD"
    by (auto simp: resolves_iff)
  from isDeclaredBy_pred [OF assms this] show "\<exists>pred. isDeclaredBy st D = Ret pred" by blast
qed


lemma isDeclaredBy_pred_returns_iff:
  assumes "isDeclaredBy st D = Ret pred" and "n_id (nodes st (p_node (paths st D))) = Some i"
  shows "(\<exists>b. pred st p = Ret b) \<longleftrightarrow>
         (case p_parent (paths st p) of
            None \<Rightarrow> False
          | Some q \<Rightarrow>
              name_only_position st (nodes st (p_node (paths st q))) (p_node (paths st p)) \<or>
              resolves st (n_name (nodes st i)) (p_scope (paths st p)))"
proof -
  from isDeclaredBy_Ret [OF assms(1)] assms(2) obtain sD where
    pd: "pred = (\<lambda>st' identPath.
             (case isVariable st' identPath of
                Inl e \<Rightarrow> Throw e
              | Inr False \<Rightarrow> Ret False
              | Inr True \<Rightarrow>
                  bindR (declaringScope st' (n_name (nodes st i)) (p_scope (paths st' identPath)))
                    (\<lambda>s. Ret (s_path (scopes st' s) = s_path (scopes st' sD)))))"
    by auto
  show ?thesis
  proof (cases "p_parent (paths st p)")
    case None
    then show ?thesis by (simp add: pd isVariable_root)
  next
    case (Some q)
    show ?thesis
    proof (cases "name_only_position st (nodes st (p_node (paths st q))) (p_node (paths st p))")
      case True
      then show ?thesis using Some by (auto simp: pd isVariable_parent)
    next
      case False
      then show ?thesis using Some
        by (auto simp: pd isVariable_parent bindR_def resolves_iff split: option.splits sum.splits)
    qed
  qed
qed

text \<open>
  The callback of the filter, on a declarator with an \<open>id\<close> of non-empty name and with a
  scope: the three stages in the order of the source.
\<close>

lemma removeUnreferenced_varPath_stages:
  assumes "n_id (nodes st (p_node (paths st d))) = Some i"
    and "n_name (nodes st i) = Some N" and "N \<noteq> []"
    and "p_scope (paths st d) = Some s"
  shows "removeUnreferenced_varPath st d =
      bindR (Collection_filter
               (\<lambda>p. case isDeclaratorID st p of Inl e \<Rightarrow> Throw e | Inr b \<Rightarrow> Ret (\<not> b))
               (Collection_find st [s_path (scopes st s)] ''Identifier'' (Some N)))
        (\<lambda>uses.
      bindR (isDeclaredBy st d) (\<lambda>pred.
      bindR (Collection_filter (pred st) uses) (\<lambda>refs. Ret (0 = length refs))))"
  using assms by (simp add: removeUnreferenced_varPath_def Let_def)

lemma removeUnreferenced_varPath_Ret:
  assumes "removeUnreferenced_varPath st d = Ret b"
    and "n_id (nodes st (p_node (paths st d))) = Some i"
    and "n_name (nodes st i) = Some N" and "N \<noteq> []"
  shows "\<exists>s pred. p_scope (paths st d) = Some s \<and> isDeclaredBy st d = Ret pred \<and>
           (\<forall>p. named_below st (s_path (scopes st s)) (Some N) p \<longrightarrow>
                (\<exists>c. isDeclaratorID st p = Inr c) \<and>
                (isDeclaratorID st p = Inr False \<longrightarrow> (\<exists>c. pred st p = Ret c))) \<and>
           (b \<longleftrightarrow> {p. named_below st (s_path (scopes st s)) (Some N) p \<and>
                        isDeclaratorID st p = Inr False \<and> pred st p = Ret True} = {})"
proof -
  from assms obtain s where s: "p_scope (paths st d) = Some s"
    by (auto simp: removeUnreferenced_varPath_def Let_def split: option.splits)
  define found where "found = Collection_find st [s_path (scopes st s)] ''Identifier'' (Some N)"
  define f1 where "f1 = (\<lambda>p. case isDeclaratorID st p of
                                 Inl e \<Rightarrow> Throw e | Inr b \<Rightarrow> (Ret (\<not> b) :: bool res))"
  have found: "\<And>p. p \<in> set found \<longleftrightarrow> named_below st (s_path (scopes st s)) (Some N) p"
    unfolding found_def by (rule mem_Collection_find)
  from assms(1) obtain uses pred refs where
    u: "Collection_filter f1 found = Ret uses" and p: "isDeclaredBy st d = Ret pred"
    and r: "Collection_filter (pred st) uses = Ret refs" and b: "b = (0 = length refs)"
    unfolding removeUnreferenced_varPath_stages [OF assms(2-4) s] found_def [symmetric]
      f1_def [symmetric]
    by (auto simp: bindR_def split: option.splits sum.splits)
  have uses: "uses = filter (\<lambda>x. f1 x = Ret True) found"
    and f1ret: "\<forall>x\<in>set found. \<exists>c. f1 x = Ret c"
    using Collection_filter_Ret [OF u] by simp_all
  have refs: "refs = filter (\<lambda>x. pred st x = Ret True) uses"
    and pret: "\<forall>x\<in>set uses. \<exists>c. pred st x = Ret c"
    using Collection_filter_Ret [OF r] by simp_all
  have f1: "\<And>x. f1 x = Ret True \<longleftrightarrow> isDeclaratorID st x = Inr False"
    by (auto simp: f1_def split: sum.splits)
  have f1c: "\<And>x. (\<exists>c. f1 x = Ret c) \<longleftrightarrow> (\<exists>c. isDeclaratorID st x = Inr c)"
    by (auto simp: f1_def split: sum.splits)
  have ret: "\<forall>p. named_below st (s_path (scopes st s)) (Some N) p \<longrightarrow>
                (\<exists>c. isDeclaratorID st p = Inr c) \<and>
                (isDeclaratorID st p = Inr False \<longrightarrow> (\<exists>c. pred st p = Ret c))"
    using f1ret pret unfolding uses by (auto simp: found f1 f1c)
  have "b \<longleftrightarrow> {p. named_below st (s_path (scopes st s)) (Some N) p \<and>
                        isDeclaratorID st p = Inr False \<and> pred st p = Ret True} = {}"
    unfolding b refs uses by (auto simp: f1 found filter_empty_conv)
  then show ?thesis using s p ret by blast
qed

text \<open>The callback returns exactly under the contract.\<close>

lemma removeUnreferenced_varPath_returns_iff:
  "(\<exists>b. removeUnreferenced_varPath st d = Ret b) \<longleftrightarrow> removal_defined st d"
proof (cases "n_id (nodes st (p_node (paths st d)))")
  case None
  then show ?thesis by (simp add: removeUnreferenced_varPath_def removal_defined_def)
next
  case (Some i)
  show ?thesis
  proof (cases "n_name (nodes st i) = None \<or> n_name (nodes st i) = Some []")
    case True
    then show ?thesis using Some
      by (auto simp: removeUnreferenced_varPath_def removal_defined_def)
  next
    case False
    then obtain N where N: "n_name (nodes st i) = Some N" "N \<noteq> []" by auto
    show ?thesis
    proof (cases "p_scope (paths st d)")
      case None
      then show ?thesis using Some N
        by (simp add: removeUnreferenced_varPath_def removal_defined_def)
    next
      case (Some s)
      note s = this
      note i = \<open>n_id (nodes st (p_node (paths st d))) = Some i\<close>
      let ?root = "s_path (scopes st s)"
      have rd: "removal_defined st d \<longleftrightarrow>
          resolves st (Some N) (Some s) \<and>
          (\<forall>p. named_below st ?root (Some N) p \<longrightarrow>
               (case p_parent (paths st p) of
                  None \<Rightarrow> False
                | Some q \<Rightarrow>
                    binding_occurrence st (nodes st (p_node (paths st q))) (p_node (paths st p)) \<or>
                    name_only_position st (nodes st (p_node (paths st q))) (p_node (paths st p)) \<or>
                    resolves st (Some N) (p_scope (paths st p))))"
      proof -
        have mem: "\<And>p. named_below st ?root (Some N) p \<Longrightarrow> p \<in> set (subtree st ?root)"
          by (simp add: named_below_def)
        have "removal_defined st d \<longleftrightarrow>
          resolves st (Some N) (Some s) \<and>
          (\<forall>p\<in>set (subtree st ?root). named_below st ?root (Some N) p \<longrightarrow>
               (case p_parent (paths st p) of
                  None \<Rightarrow> False
                | Some q \<Rightarrow>
                    binding_occurrence st (nodes st (p_node (paths st q))) (p_node (paths st p)) \<or>
                    name_only_position st (nodes st (p_node (paths st q))) (p_node (paths st p)) \<or>
                    resolves st (Some N) (p_scope (paths st p))))"
          by (simp add: removal_defined_def i N s cong: option.case_cong)
        then show ?thesis using mem by blast
      qed
      show ?thesis
      proof
        assume "\<exists>b. removeUnreferenced_varPath st d = Ret b"
        then obtain b where b: "removeUnreferenced_varPath st d = Ret b" by blast
        from removeUnreferenced_varPath_Ret [OF b i N] s obtain pred where
          p: "isDeclaredBy st d = Ret pred"
          and ret: "\<forall>p. named_below st ?root (Some N) p \<longrightarrow>
                (\<exists>c. isDeclaratorID st p = Inr c) \<and>
                (isDeclaratorID st p = Inr False \<longrightarrow> (\<exists>c. pred st p = Ret c))"
          by auto
        have res: "resolves st (Some N) (Some s)"
          using isDeclaredBy_returns_iff [OF i] p N s by auto
        have "\<forall>p. named_below st ?root (Some N) p \<longrightarrow>
               (case p_parent (paths st p) of
                  None \<Rightarrow> False
                | Some q \<Rightarrow>
                    binding_occurrence st (nodes st (p_node (paths st q))) (p_node (paths st p)) \<or>
                    name_only_position st (nodes st (p_node (paths st q))) (p_node (paths st p)) \<or>
                    resolves st (Some N) (p_scope (paths st p)))"
        proof (intro allI impI)
          fix p assume nb: "named_below st ?root (Some N) p"
          from ret nb obtain c where c: "isDeclaratorID st p = Inr c"
            and u: "isDeclaratorID st p = Inr False \<longrightarrow> (\<exists>c. pred st p = Ret c)" by blast
          show "case p_parent (paths st p) of
                  None \<Rightarrow> False
                | Some q \<Rightarrow>
                    binding_occurrence st (nodes st (p_node (paths st q))) (p_node (paths st p)) \<or>
                    name_only_position st (nodes st (p_node (paths st q))) (p_node (paths st p)) \<or>
                    resolves st (Some N) (p_scope (paths st p))"
          proof (cases "p_parent (paths st p)")
            case None
            then show ?thesis using c by (simp add: isDeclaratorID_root)
          next
            case (Some q)
            show ?thesis
            proof (cases "binding_occurrence st (nodes st (p_node (paths st q)))
                            (p_node (paths st p))")
              case True
              then show ?thesis using Some by simp
            next
              case False
              then have "isDeclaratorID st p = Inr False"
                using Some by (simp add: isDeclaratorID_parent)
              with u have "\<exists>c. pred st p = Ret c" by blast
              then show ?thesis
                using isDeclaredBy_pred_returns_iff [OF p i, of p] Some N by simp
            qed
          qed
        qed
        then show "removal_defined st d" using res rd by blast
      next
        assume "removal_defined st d"
        then have res: "resolves st (Some N) (Some s)"
          and each: "\<And>p. named_below st ?root (Some N) p \<Longrightarrow>
               (case p_parent (paths st p) of
                  None \<Rightarrow> False
                | Some q \<Rightarrow>
                    binding_occurrence st (nodes st (p_node (paths st q))) (p_node (paths st p)) \<or>
                    name_only_position st (nodes st (p_node (paths st q))) (p_node (paths st p)) \<or>
                    resolves st (Some N) (p_scope (paths st p)))"
          using rd by blast+
        define found where "found = Collection_find st [?root] ''Identifier'' (Some N)"
        define f1 where "f1 = (\<lambda>p. case isDeclaratorID st p of
                                 Inl e \<Rightarrow> Throw e | Inr b \<Rightarrow> (Ret (\<not> b) :: bool res))"
        have found: "\<And>p. p \<in> set found \<longleftrightarrow> named_below st ?root (Some N) p"
          unfolding found_def by (rule mem_Collection_find)
        have "\<forall>p\<in>set found. \<exists>c. f1 p = Ret c"
        proof
          fix p assume "p \<in> set found"
          then have "named_below st ?root (Some N) p" by (simp add: found)
          from each [OF this] obtain q where "p_parent (paths st p) = Some q"
            by (cases "p_parent (paths st p)") auto
          then show "\<exists>c. f1 p = Ret c" by (simp add: f1_def isDeclaratorID_parent)
        qed
        from Collection_filter_total [OF this] have
          u: "Collection_filter f1 found = Ret (filter (\<lambda>x. f1 x = Ret True) found)" .
        from res obtain pred where p: "isDeclaredBy st d = Ret pred"
          using isDeclaredBy_returns_iff [OF i] N s by auto
        have "\<forall>p\<in>set (filter (\<lambda>x. f1 x = Ret True) found). \<exists>c. pred st p = Ret c"
        proof
          fix p assume "p \<in> set (filter (\<lambda>x. f1 x = Ret True) found)"
          then have nb: "named_below st ?root (Some N) p" and t: "f1 p = Ret True"
            by (simp_all add: found)
          from each [OF nb] obtain q where q: "p_parent (paths st p) = Some q"
            and c: "binding_occurrence st (nodes st (p_node (paths st q))) (p_node (paths st p)) \<or>
                    name_only_position st (nodes st (p_node (paths st q))) (p_node (paths st p)) \<or>
                    resolves st (Some N) (p_scope (paths st p))"
            by (cases "p_parent (paths st p)") auto
          from t q have "\<not> binding_occurrence st (nodes st (p_node (paths st q)))
                            (p_node (paths st p))"
            by (simp add: f1_def isDeclaratorID_parent)
          with c show "\<exists>c. pred st p = Ret c"
            using isDeclaredBy_pred_returns_iff [OF p i, of p] q N by simp
        qed
        from Collection_filter_total [OF this] obtain refs where
          r: "Collection_filter (pred st) (filter (\<lambda>x. f1 x = Ret True) found) = Ret refs"
          by blast
        have "removeUnreferenced_varPath st d = Ret (0 = length refs)"
          unfolding removeUnreferenced_varPath_stages [OF i N s] found_def [symmetric]
            f1_def [symmetric]
          by (simp add: bindR_def u p r)
        then show "\<exists>b. removeUnreferenced_varPath st d = Ret b" by blast
      qed
    qed
  qed
qed

text \<open>Detaching and pruning: what stays as it is, what goes and what is kept.\<close>

lemma detach_frame:
  "nodes (detach st p) = nodes st" "paths (detach st p) = paths st"
  "scopes (detach st p) = scopes st" "isSupertypeOf (detach st p) = isSupertypeOf st"
  by (simp_all add: detach_def)

lemma detach_subset: "set (subtree (detach st p) r) \<subseteq> set (subtree st r)"
  by (auto simp: detach_def)

lemma detach_gone: "p \<notin> set (subtree (detach st p) r)"
  by (simp add: detach_def)

lemma detach_keeps:
  "x \<in> set (subtree st r) \<Longrightarrow> x \<noteq> p \<Longrightarrow> x \<notin> set (subtree st p) \<Longrightarrow>
   x \<in> set (subtree (detach st p) r)"
  by (simp add: detach_def)

lemma children_mono:
  assumes "\<And>r. set (subtree st' r) \<subseteq> set (subtree st r)" and "paths st' = paths st"
  shows "set (children st' q) \<subseteq> set (children st q)"
  using assms by (auto simp: children_def)

lemma children_parent: "c \<in> set (children st q) \<Longrightarrow> p_parent (paths st c) = Some q"
  by (simp add: children_def)

lemma children_below: "c \<in> set (children st q) \<Longrightarrow> c \<in> set (subtree st q)"
  by (simp add: children_def)

lemma prune_cases:
  "prune st p = detach st p \<or>
   (\<exists>q. p_parent (paths st p) = Some q \<and>
        check st ''VariableDeclaration'' (nodes st (p_node (paths st q))) \<and>
        children (detach st p) q = [] \<and> prune st p = detach (detach st p) q)"
  by (auto simp: prune_def Let_def detach_frame check_def split: option.splits)

lemma prune_frame:
  "nodes (prune st p) = nodes st" "paths (prune st p) = paths st"
  "scopes (prune st p) = scopes st" "isSupertypeOf (prune st p) = isSupertypeOf st"
  using prune_cases [of st p] by (auto simp: detach_frame)

lemma prune_subset: "set (subtree (prune st p) r) \<subseteq> set (subtree st r)"
  using prune_cases [of st p] by (metis detach_subset order_trans)

lemma prune_gone: "p \<notin> set (subtree (prune st p) r)"
  using prune_cases [of st p] by (metis detach_gone detach_subset subsetD)

lemma prune_statement:
  assumes "p_parent (paths st p) = Some q"
    and "check st ''VariableDeclaration'' (nodes st (p_node (paths st q)))"
    and "children (detach st p) q = []"
  shows "q \<notin> set (subtree (prune st p) r)"
proof -
  have "prune st p = detach (detach st p) q"
    using assms by (simp add: prune_def Let_def detach_frame check_def)
  then show ?thesis by (simp add: detach_gone)
qed

lemma prune_keeps:
  assumes "x \<in> set (subtree st r)" and "x \<notin> set (subtree (prune st p) r)"
  shows "x = p \<or> x \<in> set (subtree st p) \<or>
         (\<exists>q. p_parent (paths st p) = Some q \<and>
              check st ''VariableDeclaration'' (nodes st (p_node (paths st q))) \<and>
              children (prune st p) q = [] \<and>
              (x = q \<or> (x \<in> set (subtree st q) \<and> p_parent (paths st x) \<noteq> Some q)))"
proof (cases "x \<in> set (subtree (detach st p) r)")
  case False
  then show ?thesis using assms(1) detach_keeps by blast
next
  case True
  with assms(2) have ne: "prune st p \<noteq> detach st p" by auto
  with prune_cases [of st p] obtain q where q: "p_parent (paths st p) = Some q"
    "check st ''VariableDeclaration'' (nodes st (p_node (paths st q)))"
    "children (detach st p) q = []" "prune st p = detach (detach st p) q"
    by blast
  have ch: "children (prune st p) q = []"
  proof -
    have "set (children (detach (detach st p) q) q) \<subseteq> set (children (detach st p) q)"
      by (rule children_mono) (simp_all add: detach_subset detach_frame)
    then show ?thesis using q(3,4) by simp
  qed
  have gone: "x \<notin> set (subtree (detach (detach st p) q) r)" using assms(2) q(4) by simp
  have "x = q \<or> x \<in> set (subtree (detach st p) q)"
    using True gone detach_keeps by blast
  moreover have "x \<in> set (subtree (detach st p) q) \<Longrightarrow>
      x \<in> set (subtree st q) \<and> p_parent (paths st x) \<noteq> Some q"
  proof
    assume b: "x \<in> set (subtree (detach st p) q)"
    then show "x \<in> set (subtree st q)" using detach_subset by blast
    show "p_parent (paths st x) \<noteq> Some q"
    proof
      assume "p_parent (paths st x) = Some q"
      then have "x \<in> set (children (detach st p) q)"
        using b by (simp add: children_def detach_frame)
      then show False using q(3) by simp
    qed
  qed
  ultimately show ?thesis using q(1,2) ch by blast
qed

text \<open>Pruning a list of paths leaves the tree that section 4.5 describes.\<close>

lemma tree_after_removal_Nil: "tree_after_removal st [] st"
  by (simp add: tree_after_removal_def)

lemma tree_after_removal_Cons:
  assumes "tree_after_removal (prune st p) ps st'"
  shows "tree_after_removal st (p # ps) st'"
proof -
  let ?st1 = "prune st p"
  note fr = prune_frame [of st p]
  from assms have
    fr': "nodes st' = nodes ?st1" "paths st' = paths ?st1" "scopes st' = scopes ?st1"
      "isSupertypeOf st' = isSupertypeOf ?st1"
    and sub': "\<And>r. set (subtree st' r) \<subseteq> set (subtree ?st1 r)"
    and gone': "\<And>d r. d \<in> set ps \<Longrightarrow> d \<notin> set (subtree st' r)"
    and stmt': "\<And>q r. check ?st1 ''VariableDeclaration'' (nodes ?st1 (p_node (paths ?st1 q))) \<Longrightarrow>
                  \<exists>p\<in>set ps. p_parent (paths ?st1 p) = Some q \<Longrightarrow>
                  \<forall>c\<in>set (children ?st1 q). c \<in> set ps \<Longrightarrow> q \<notin> set (subtree st' r)"
    and keep': "\<And>r x. x \<in> set (subtree ?st1 r) \<Longrightarrow> x \<notin> set (subtree st' r) \<Longrightarrow>
        (\<exists>p\<in>set ps. x = p \<or> x \<in> set (subtree ?st1 p) \<or>
           (\<exists>q. p_parent (paths ?st1 p) = Some q \<and>
                check ?st1 ''VariableDeclaration'' (nodes ?st1 (p_node (paths ?st1 q))) \<and>
                children st' q = [] \<and>
                (x = q \<or> (x \<in> set (subtree ?st1 q) \<and> p_parent (paths ?st1 x) \<noteq> Some q))))"
    unfolding tree_after_removal_def by blast+
  have chk: "\<And>T n. check ?st1 T n = check st T n" by (simp add: check_def fr)
  have sub1: "\<And>r. set (subtree ?st1 r) \<subseteq> set (subtree st r)" by (rule prune_subset)
  have sub: "\<And>r. set (subtree st' r) \<subseteq> set (subtree st r)" using sub' sub1 by blast
  have ch1: "\<And>q. set (children ?st1 q) \<subseteq> set (children st q)"
    by (rule children_mono) (simp_all add: prune_subset fr)
  have ch': "\<And>q. set (children st' q) \<subseteq> set (children ?st1 q)"
    by (rule children_mono) (simp_all add: sub' fr')
  have pgone: "\<And>r. p \<notin> set (subtree st' r)" using prune_gone [of p st] sub' by blast
  have gone: "\<forall>d\<in>set (p # ps). \<forall>r. d \<notin> set (subtree st' r)"
    using pgone gone' by auto
  have stmt: "\<forall>q. check st ''VariableDeclaration'' (nodes st (p_node (paths st q))) \<and>
          (\<exists>p'\<in>set (p # ps). p_parent (paths st p') = Some q) \<and>
          (\<forall>c\<in>set (children st q). c \<in> set (p # ps))
          \<longrightarrow> (\<forall>r. q \<notin> set (subtree st' r))"
  proof (intro allI impI)
    fix q r
    assume h: "check st ''VariableDeclaration'' (nodes st (p_node (paths st q))) \<and>
          (\<exists>p'\<in>set (p # ps). p_parent (paths st p') = Some q) \<and>
          (\<forall>c\<in>set (children st q). c \<in> set (p # ps))"
    have notp: "p \<notin> set (children ?st1 q)"
      using prune_gone [of p st q] children_below by blast
    have allps: "\<forall>c\<in>set (children ?st1 q). c \<in> set ps"
      using h ch1 [of q] notp by auto
    show "q \<notin> set (subtree st' r)"
    proof (cases "\<exists>p'\<in>set ps. p_parent (paths st p') = Some q")
      case True
      then show ?thesis using stmt' [of q r] h allps by (simp add: chk fr)
    next
      case False
      with h have pq: "p_parent (paths st p) = Some q" by auto
      have "children ?st1 q = []"
      proof (rule ccontr)
        assume "children ?st1 q \<noteq> []"
        then obtain c where c: "c \<in> set (children ?st1 q)" by (cases "children ?st1 q") auto
        then have "c \<in> set ps" using allps by blast
        moreover have "p_parent (paths st c) = Some q"
          using children_parent [OF c] by (simp add: fr)
        ultimately show False using False by blast
      qed
      have "children (detach st p) q = []"
      proof (cases "prune st p = detach st p")
        case True
        then show ?thesis using \<open>children ?st1 q = []\<close> by simp
      next
        case False
        with prune_cases [of st p] pq show ?thesis by auto
      qed
      from prune_statement [OF pq _ this] h have "q \<notin> set (subtree ?st1 r)" by blast
      then show ?thesis using sub' by blast
    qed
  qed
  have keep: "\<forall>r x. x \<in> set (subtree st r) \<and> x \<notin> set (subtree st' r) \<longrightarrow>
        (\<exists>p'\<in>set (p # ps). x = p' \<or> x \<in> set (subtree st p') \<or>
           (\<exists>q. p_parent (paths st p') = Some q \<and>
                check st ''VariableDeclaration'' (nodes st (p_node (paths st q))) \<and>
                children st' q = [] \<and>
                (x = q \<or> (x \<in> set (subtree st q) \<and> p_parent (paths st x) \<noteq> Some q))))"
  proof (intro allI impI)
    fix r x
    assume h: "x \<in> set (subtree st r) \<and> x \<notin> set (subtree st' r)"
    show "\<exists>p'\<in>set (p # ps). x = p' \<or> x \<in> set (subtree st p') \<or>
           (\<exists>q. p_parent (paths st p') = Some q \<and>
                check st ''VariableDeclaration'' (nodes st (p_node (paths st q))) \<and>
                children st' q = [] \<and>
                (x = q \<or> (x \<in> set (subtree st q) \<and> p_parent (paths st x) \<noteq> Some q)))"
    proof (cases "x \<in> set (subtree ?st1 r)")
      case False
      from prune_keeps [OF _ False] h have
        "x = p \<or> x \<in> set (subtree st p) \<or>
         (\<exists>q. p_parent (paths st p) = Some q \<and>
              check st ''VariableDeclaration'' (nodes st (p_node (paths st q))) \<and>
              children ?st1 q = [] \<and>
              (x = q \<or> (x \<in> set (subtree st q) \<and> p_parent (paths st x) \<noteq> Some q)))"
        by blast
      moreover have "\<And>q. children ?st1 q = [] \<Longrightarrow> children st' q = []"
        using ch' by (metis empty_iff empty_set subset_iff equals0I set_empty)
      ultimately show ?thesis by auto
    next
      case True
      from keep' [OF True] h obtain p' where p': "p' \<in> set ps"
        and d: "x = p' \<or> x \<in> set (subtree ?st1 p') \<or>
           (\<exists>q. p_parent (paths ?st1 p') = Some q \<and>
                check ?st1 ''VariableDeclaration'' (nodes ?st1 (p_node (paths ?st1 q))) \<and>
                children st' q = [] \<and>
                (x = q \<or> (x \<in> set (subtree ?st1 q) \<and> p_parent (paths ?st1 x) \<noteq> Some q)))"
        by blast
      have "x = p' \<or> x \<in> set (subtree st p') \<or>
           (\<exists>q. p_parent (paths st p') = Some q \<and>
                check st ''VariableDeclaration'' (nodes st (p_node (paths st q))) \<and>
                children st' q = [] \<and>
                (x = q \<or> (x \<in> set (subtree st q) \<and> p_parent (paths st x) \<noteq> Some q)))"
        using d sub1 by (auto simp: chk fr)
      then show ?thesis using p' by auto
    qed
  qed
  show ?thesis
    unfolding tree_after_removal_def
  proof (intro conjI)
    show "nodes st' = nodes st" by (simp add: fr fr')
    show "paths st' = paths st" by (simp add: fr fr')
    show "scopes st' = scopes st" by (simp add: fr fr')
    show "isSupertypeOf st' = isSupertypeOf st" by (simp add: fr fr')
    show "\<forall>r. set (subtree st' r) \<subseteq> set (subtree st r)" using sub by blast
  qed (fact gone, fact stmt, fact keep)
qed

lemma fold_prune_tree: "tree_after_removal st out (fold (\<lambda>p s. prune s p) out st)"
proof (induction out arbitrary: st)
  case Nil
  then show ?case by (simp add: tree_after_removal_Nil)
next
  case (Cons p ps)
  have "tree_after_removal (prune st p) ps (fold (\<lambda>p s. prune s p) ps (prune st p))"
    by (rule Cons.IH)
  then have "tree_after_removal st (p # ps) (fold (\<lambda>p s. prune s p) ps (prune st p))"
    by (rule tree_after_removal_Cons)
  then show ?case by simp
qed

text \<open>
  The whole call: it returns exactly when the callback returns on every declarator of the
  collection, and then it has pruned the declarators on which the callback returned true.
\<close>

lemma removeUnreferenced_total:
  "(\<forall>d\<in>set coll. removal_defined st d) \<Longrightarrow>
   removeUnreferenced st coll =
     Ret (fold (\<lambda>p s. prune s p)
            (filter (\<lambda>d. removeUnreferenced_varPath st d = Ret True) coll) st,
          filter (\<lambda>d. removeUnreferenced_varPath st d = Ret True) coll)"
proof -
  assume "\<forall>d\<in>set coll. removal_defined st d"
  then have "\<forall>d\<in>set coll. \<exists>b. removeUnreferenced_varPath st d = Ret b"
    by (simp add: removeUnreferenced_varPath_returns_iff)
  from Collection_filter_total [OF this] show ?thesis
    by (simp add: removeUnreferenced_def bindR_def Collection_remove_def)
qed

lemma removeUnreferenced_Ret:
  assumes "removeUnreferenced st coll = Ret (st', out)"
  shows "Collection_filter (removeUnreferenced_varPath st) coll = Ret out \<and>
         st' = fold (\<lambda>p s. prune s p) out st"
  using assms
  by (auto simp: removeUnreferenced_def Collection_remove_def bindR_def
      split: option.splits sum.splits)

lemma removeUnreferenced_returns_iff:
  "(\<exists>x. removeUnreferenced st coll = Ret x) \<longleftrightarrow> (\<forall>d\<in>set coll. removal_defined st d)"
proof
  assume "\<exists>x. removeUnreferenced st coll = Ret x"
  then obtain st' out where "removeUnreferenced st coll = Ret (st', out)" by auto
  from removeUnreferenced_Ret [OF this]
  have "Collection_filter (removeUnreferenced_varPath st) coll = Ret out" by simp
  from Collection_filter_Ret [OF this] show "\<forall>d\<in>set coll. removal_defined st d"
    by (simp add: removeUnreferenced_varPath_returns_iff)
next
  assume "\<forall>d\<in>set coll. removal_defined st d"
  from removeUnreferenced_total [OF this] show "\<exists>x. removeUnreferenced st coll = Ret x"
    by blast
qed







text \<open>
  C8, as the code has it. A declarator whose \<open>id\<close> has no name (a destructuring pattern)
  makes the callback of the filter return false at once: it does not throw, and it returns
  false whatever the scopes and the subtrees are, so nothing is searched and no scope is
  walked. Such a declarator is never among the declarators that a call prunes, and the tree
  the call leaves is the tree after the removal of those: the declarator leaves the tree
  only with a pruned declarator that it lies below. The contract of the call holds of such
  a declarator, and the call returns exactly when it holds of every declarator of the
  collection.
\<close>

theorem removeUnreferenced_keeps_patterns:
  assumes "n_id (nodes st (p_node (paths st d))) = Some i" and "n_name (nodes st i) = None"
  shows "removeUnreferenced_varPath st d = Ret False \<and>
         (\<forall>sc sub. removeUnreferenced_varPath (st\<lparr>scopes := sc, subtree := sub\<rparr>) d = Ret False) \<and>
         (\<forall>coll st' out. removeUnreferenced st coll = Ret (st', out) \<longrightarrow>
            d \<notin> set out \<and> tree_after_removal st out st') \<and>
         removal_defined st d \<and>
         (\<forall>coll. (\<exists>x. removeUnreferenced st coll = Ret x) \<longleftrightarrow>
                 (\<forall>e\<in>set coll. removal_defined st e))"
proof -
  have a: "removeUnreferenced_varPath st d = Ret False"
    using assms by (simp add: removeUnreferenced_varPath_def)
  have b: "\<forall>sc sub. removeUnreferenced_varPath (st\<lparr>scopes := sc, subtree := sub\<rparr>) d = Ret False"
    using assms by (simp add: removeUnreferenced_varPath_def)
  have c: "\<forall>coll st' out. removeUnreferenced st coll = Ret (st', out) \<longrightarrow>
             d \<notin> set out \<and> tree_after_removal st out st'"
  proof (intro allI impI)
    fix coll st' out
    assume "removeUnreferenced st coll = Ret (st', out)"
    from removeUnreferenced_Ret [OF this]
    have f: "Collection_filter (removeUnreferenced_varPath st) coll = Ret out"
      and s: "st' = fold (\<lambda>p s. prune s p) out st" by simp_all
    from Collection_filter_Ret [OF f]
    have "out = filter (\<lambda>x. removeUnreferenced_varPath st x = Ret True) coll" by simp
    then have "d \<notin> set out" using a by auto
    then show "d \<notin> set out \<and> tree_after_removal st out st'"
      unfolding s using fold_prune_tree by blast
  qed
  have e: "removal_defined st d"
    using assms by (simp add: removal_defined_def)
  have f: "\<forall>coll. (\<exists>x. removeUnreferenced st coll = Ret x) \<longleftrightarrow>
                 (\<forall>e\<in>set coll. removal_defined st e)"
    using removeUnreferenced_returns_iff by blast
  show ?thesis using a b c e f by blast
qed

text \<open>
  In the second program the declarator of \<open>[a]\<close> (13) has the pattern 14 as its
  \<open>id\<close>; it is not pruned, and it is below the program as before.
\<close>

theorem removeUnreferenced_keeps_patterns_witness:
  "n_id (nodes unused_program (p_node (paths unused_program 13))) = Some 14 \<and>
   n_name (nodes unused_program 14) = None \<and>
   removeUnreferenced_varPath unused_program 13 = Ret False \<and>
   removeUnreferenced unused_program [2, 5, 13] =
     Ret (fold (\<lambda>p s. prune s p) [2] unused_program, [2]) \<and>
   13 \<notin> set [2::nat] \<and>
   tree_after_removal unused_program [2] (fold (\<lambda>p s. prune s p) [2] unused_program) \<and>
   13 \<in> set (subtree (fold (\<lambda>p s. prune s p) [2] unused_program) 0)"
proof -
  have i: "n_id (nodes unused_program (p_node (paths unused_program 13))) = Some 14"
    by code_simp
  have n: "n_name (nodes unused_program 14) = None"
    by code_simp
  have f: "Collection_filter (removeUnreferenced_varPath unused_program) [2, 5, 13] = Ret [2]"
    by code_simp
  have r: "removeUnreferenced unused_program [2, 5, 13] =
             Ret (fold (\<lambda>p s. prune s p) [2] unused_program, [2])"
    unfolding removeUnreferenced_def f by (simp add: bindR_def Collection_remove_def)
  have k: "13 \<in> set (subtree (fold (\<lambda>p s. prune s p) [2] unused_program) 0)"
    by code_simp
  from removeUnreferenced_keeps_patterns [OF i n] have
    a: "removeUnreferenced_varPath unused_program 13 = Ret False"
    and c: "\<forall>coll st' out. removeUnreferenced unused_program coll = Ret (st', out) \<longrightarrow>
              13 \<notin> set out \<and> tree_after_removal unused_program out st'"
    by blast+
  from c r have "13 \<notin> set [2::nat] \<and>
      tree_after_removal unused_program [2] (fold (\<lambda>p s. prune s p) [2] unused_program)"
    by blast
  then show ?thesis using i n a r k by blast
qed

text \<open>
  The claim as it was stated has such a declarator retained unconditionally. In the fifth
  program the declarator of \<open>[a]\<close> (11) is in the collection, has the pattern 12 as its
  \<open>id\<close> and is not pruned; it is gone from the tree all the same, with the declarator of
  \<open>x\<close> (2), whose initialiser it lies in.
\<close>

theorem removeUnreferenced_keeps_patterns_counterexample:
  "n_id (nodes nested_program (p_node (paths nested_program 11))) = Some 12 \<and>
   n_name (nodes nested_program 12) = None \<and>
   removeUnreferenced nested_program [2, 7, 11] = Ret (Collection_remove nested_program [2]) \<and>
   11 \<in> set (subtree nested_program 0) \<and>
   11 \<notin> set (subtree (fst (Collection_remove nested_program [2])) 0)"
proof -
  have f: "Collection_filter (removeUnreferenced_varPath nested_program) [2, 7, 11] = Ret [2]"
    by code_simp
  have r: "removeUnreferenced nested_program [2, 7, 11] =
             Ret (Collection_remove nested_program [2])"
    unfolding removeUnreferenced_def f by (simp add: bindR_def)
  have rest: "n_id (nodes nested_program (p_node (paths nested_program 11))) = Some 12 \<and>
   n_name (nodes nested_program 12) = None \<and>
   11 \<in> set (subtree nested_program 0) \<and>
   11 \<notin> set (subtree (fst (Collection_remove nested_program [2])) 0)"
    by code_simp
  show ?thesis using r rest by blast
qed

section \<open>Renaming\<close>













text \<open>Reading a result through a projection.\<close>

lemma map_res_Ret:
  assumes "map_option (map_sum id f) r = Ret y"
  shows "\<exists>x. r = Ret x \<and> f x = y"
proof (cases r)
  case None
  with assms show ?thesis by simp
next
  case (Some a)
  with assms show ?thesis by (cases a) auto
qed




text \<open>
  C4. The search of \<open>renameTo\<close>, and of \<open>removeUnreferenced\<close>, starts at
  \<open>varPath.scope.path\<close>, the path of the declarator's own scope, and not at the path of
  the scope that the walk of \<open>isDeclaredBy\<close> finds. In the third program the declarator
  of \<open>x\<close> (10) has the scope of the catch clause (2, at path 6); the walk for \<open>x\<close> finds
  the scope of the function (1, at path 1). The \<open>x\<close> of \<open>return x\<close> (14) is a variable
  that the walk resolves to the same scope; it lies below the function and not below the
  catch clause. \<open>renameTo\<close> renames the binding identifier (11) and leaves this use
  (14), and \<open>removeUnreferenced\<close> removes the declarator, whose variable is used.
\<close>

theorem renameTo_searches_own_scope_only:
  "p_scope (paths catch_program 10) = Some 2 \<and> s_path (scopes catch_program 2) = 6 \<and>
   declaringScope catch_program (Some ''x'') (Some 2) = Ret 1 \<and>
   s_path (scopes catch_program 1) = 1 \<and>
   isVariable catch_program 14 = Inr True \<and>
   declaringScope catch_program (Some ''x'') (p_scope (paths catch_program 14)) = Ret 1 \<and>
   14 \<in> set (subtree catch_program 1) \<and> 14 \<notin> set (subtree catch_program 6) \<and>
   map_option (map_sum id (\<lambda>(s, c). map (\<lambda>n. n_name (nodes s n)) [11, 14]))
     (renameTo ''y'' catch_program [10]) = Ret [Some ''y'', Some ''x''] \<and>
   returned (removeUnreferenced catch_program [10]) = Ret [10]"
  by code_simp

end
